theory Spec2Isabelle
  imports Complex_Main "HOL-Library.AList"
begin

section \<open>Data model\<close>

text \<open>
  The three scripts work on parsed GeoJSON. A position is the two-element array
  \<open>[lon, lat]\<close> (the annotations of \<open>split-dateline-geojson.py\<close> give
  \<open>List[Tuple[float, float]]\<close>, and two of the scripts unpack \<open>lon, lat = coord\<close>).
  Numbers are modelled as exact reals: a JSON integer and a JSON float both embed, Python
  compares them by value, and rounding of the double arithmetic is not modelled.
  A ring is a list of positions, a polygon a list of rings (outer ring first), a
  MultiPolygon a list of polygons.
\<close>

type_synonym coord = "real \<times> real"
type_synonym ring = "coord list"
type_synonym polygon = "ring list"
type_synonym multipolygon = "polygon list"

text \<open>The exceptions the modelled code can raise. None of them is caught anywhere.\<close>

datatype error = ZeroDivisionError | IndexError | ValueError

text \<open>
  Property values are JSON scalars. A properties object is a Python dict: an association
  list whose \<open>AList.update\<close> overwrites an existing key in place and appends a new
  one, as dict assignment does.
\<close>

datatype jvalue = JNull | JBool bool | JInt int | JNum real | JStr string

type_synonym props = "(string \<times> jvalue) list"

text \<open>
  A geometry whose \<open>type\<close> is not \<open>MultiPolygon\<close> is never inspected further; it
  is kept with its type name only. A feature is taken to have a geometry object and a
  properties object (GeoJSON allows \<open>null\<close> for both; the scripts subscript them
  without a test). Of its members only these two are modelled.
\<close>

datatype geometry = MultiPolygon multipolygon | OtherGeometry string

record feature =
  properties :: props
  geometry :: geometry

section \<open>split-dateline-geojson.py: the interpolating split\<close>

text \<open>\<open>crosses_dateline\<close>: some consecutive pair jumps by more than 180 degrees.\<close>

fun crosses_dateline :: "ring \<Rightarrow> bool" where
  "crosses_dateline ((lon1, lat1) # (lon2, lat2) # rest) =
     (if abs (lon2 - lon1) > 180 then True
      else crosses_dateline ((lon2, lat2) # rest))"
| "crosses_dateline _ = False"

text \<open>The local variables of \<open>split_polygon_at_dateline\<close> that the loop updates.\<close>

record split_state =
  west_part :: ring
  east_part :: ring
  current_part :: ring
  is_west :: bool

text \<open>
  \<open>if is_west: west_part = current_part else: east_part = current_part\<close>, followed by
  the start of a new part at the opposite seam longitude and the flip of the flag.
\<close>

definition store_part :: "split_state \<Rightarrow> ring \<Rightarrow> coord \<Rightarrow> split_state" where
  "store_part s part restart =
     (if is_west s
      then s\<lparr>west_part := part, current_part := [restart], is_west := False\<rparr>
      else s\<lparr>east_part := part, current_part := [restart], is_west := True\<rparr>)"

text \<open>
  One iteration of the loop over the edges. Python's \<open>/\<close> raises ZeroDivisionError on a
  zero divisor, for integers and for floats alike.
\<close>

definition split_edge :: "coord \<Rightarrow> coord \<Rightarrow> split_state \<Rightarrow> error + split_state" where
  "split_edge c1 c2 s =
     (case c1 of (lon1, lat1) \<Rightarrow> case c2 of (lon2, lat2) \<Rightarrow>
      let cp = current_part s @ [(lon1, lat1)] in
      if abs (lon2 - lon1) > 180 then
        if lon1 > 0 then
          if (lon2 + 360) - lon1 = 0 then Inl ZeroDivisionError
          else
            let ratio = (180 - lon1) / ((lon2 + 360) - lon1);
                lat_cross = lat1 + ratio * (lat2 - lat1)
            in Inr (store_part s (cp @ [(180, lat_cross)]) (-180, lat_cross))
        else
          if (lon2 - 360) - lon1 = 0 then Inl ZeroDivisionError
          else
            let ratio = (-180 - lon1) / ((lon2 - 360) - lon1);
                lat_cross = lat1 + ratio * (lat2 - lat1)
            in Inr (store_part s (cp @ [(-180, lat_cross)]) (180, lat_cross))
      else Inr (s\<lparr>current_part := cp\<rparr>))"

text \<open>\<open>for i in range(len(coords) - 1)\<close>: the edges in order, stopping at an exception.\<close>

fun split_walk :: "ring \<Rightarrow> split_state \<Rightarrow> error + split_state" where
  "split_walk (c1 # c2 # rest) s =
     (case split_edge c1 c2 s of
        Inl e \<Rightarrow> Inl e
      | Inr s' \<Rightarrow> split_walk (c2 # rest) s')"
| "split_walk _ s = Inr s"

text \<open>Closing a ring: append the first point when it differs from the last.\<close>

definition close_ring :: "ring \<Rightarrow> ring" where
  "close_ring r = (if r \<noteq> [] \<and> hd r \<noteq> last r then r @ [hd r] else r)"

definition split_init :: split_state where
  "split_init = \<lparr>west_part = [], east_part = [], current_part = [], is_west = True\<rparr>"

definition split_polygon_at_dateline :: "ring \<Rightarrow> error + (ring \<times> ring)" where
  "split_polygon_at_dateline coords =
     (case split_walk coords split_init of
        Inl e \<Rightarrow> Inl e
      | Inr s \<Rightarrow>
          let cp = (if coords \<noteq> [] then current_part s @ [last coords] else current_part s);
              west = (if is_west s
                      then (if west_part s = [] then cp else west_part s @ tl cp)
                      else west_part s);
              east = (if is_west s
                      then east_part s
                      else (if east_part s = [] then cp else east_part s @ tl cp))
          in Inr (close_ring west, close_ring east))"

text \<open>
  The body of the loop of \<open>process_multipolygon\<close>: the polygons one input polygon
  contributes. \<open>polygon[0]\<close> raises IndexError on a polygon without rings.
\<close>

definition process_polygon :: "polygon \<Rightarrow> error + polygon list" where
  "process_polygon polygon =
     (case polygon of
        [] \<Rightarrow> Inl IndexError
      | outer_ring # holes \<Rightarrow>
          if crosses_dateline outer_ring then
            (case split_polygon_at_dateline outer_ring of
               Inl e \<Rightarrow> Inl e
             | Inr (west, east) \<Rightarrow>
                 Inr ((if west \<noteq> [] \<and> length west > 3 then [[west]] else []) @
                      (if east \<noteq> [] \<and> length east > 3 then [[east]] else [])))
          else Inr [polygon])"

fun process_loop :: "multipolygon \<Rightarrow> polygon list \<Rightarrow> error + polygon list" where
  "process_loop [] result_polygons = Inr result_polygons"
| "process_loop (polygon # rest) result_polygons =
     (case process_polygon polygon of
        Inl e \<Rightarrow> Inl e
      | Inr new \<Rightarrow> process_loop rest (result_polygons @ new))"

definition process_multipolygon :: "multipolygon \<Rightarrow> error + multipolygon" where
  "process_multipolygon multipolygon_coords = process_loop multipolygon_coords []"

text \<open>
  \<open>any(crosses_dateline(polygon[0]) for polygon in coords)\<close>: the generator stops at
  the first flagged outer ring, and raises IndexError at an empty polygon before it.
\<close>

fun needs_split :: "multipolygon \<Rightarrow> error + bool" where
  "needs_split [] = Inr False"
| "needs_split (polygon # rest) =
     (case polygon of
        [] \<Rightarrow> Inl IndexError
      | outer_ring # holes \<Rightarrow>
          if crosses_dateline outer_ring then Inr True else needs_split rest)"

text \<open>The body of the loop over the features in \<open>process_geojson\<close>.\<close>

definition process_feature :: "feature \<Rightarrow> error + feature" where
  "process_feature f =
     (case geometry f of
        MultiPolygon coords \<Rightarrow>
          (case needs_split coords of
             Inl e \<Rightarrow> Inl e
           | Inr True \<Rightarrow>
               (case process_multipolygon coords of
                  Inl e \<Rightarrow> Inl e
                | Inr new_coords \<Rightarrow> Inr (f\<lparr>geometry := MultiPolygon new_coords\<rparr>))
           | Inr False \<Rightarrow> Inr f)
      | OtherGeometry t \<Rightarrow> Inr f)"

fun process_features :: "feature list \<Rightarrow> feature list \<Rightarrow> error + feature list" where
  "process_features [] new_features = Inr new_features"
| "process_features (f # rest) new_features =
     (case process_feature f of
        Inl e \<Rightarrow> Inl e
      | Inr f' \<Rightarrow> process_features rest (new_features @ [f']))"

text \<open>
  \<open>process_geojson\<close> without its file access: the features of the input collection to
  the features written, or the exception that ends the run before anything is written.
\<close>

definition process_geojson :: "feature list \<Rightarrow> error + feature list" where
  "process_geojson features = process_features features []"

text \<open>
  Two predicates used to state when the interpolation divides by zero: an edge that is
  declared a crossing and whose unwrapped longitude difference, the divisor, is zero.
\<close>

definition degenerate_edge :: "coord \<Rightarrow> coord \<Rightarrow> bool" where
  "degenerate_edge c1 c2 =
     (abs (fst c2 - fst c1) > 180 \<and>
      (if fst c1 > 0 then (fst c2 + 360) - fst c1 = 0 else (fst c2 - 360) - fst c1 = 0))"

fun has_degenerate_edge :: "ring \<Rightarrow> bool" where
  "has_degenerate_edge (c1 # c2 # rest) =
     (degenerate_edge c1 c2 \<or> has_degenerate_edge (c2 # rest))"
| "has_degenerate_edge _ = False"

text \<open>The points a split may contain: those of a given set, and any point on the seam.\<close>

definition seam_or_from :: "coord set \<Rightarrow> coord set" where
  "seam_or_from A = A \<union> {c. fst c = 180 \<or> fst c = -180}"

definition parts_within :: "coord set \<Rightarrow> split_state \<Rightarrow> bool" where
  "parts_within B s =
     (set (west_part s) \<subseteq> B \<and> set (east_part s) \<subseteq> B \<and> set (current_part s) \<subseteq> B)"

text \<open>
  Conditions on a ring for stating on which side of longitude 0 the parts of its split
  lie: all longitudes within \<open>[-180, 180]\<close>; every edge that is not an edge jump
  has both ends strictly on the same side of 0; and the number of edge jumps.
\<close>

definition in_range :: "ring \<Rightarrow> bool" where
  "in_range coords = list_all (\<lambda>c. -180 \<le> fst c \<and> fst c \<le> 180) coords"

fun edges_keep_side :: "ring \<Rightarrow> bool" where
  "edges_keep_side (c1 # c2 # rest) =
     ((abs (fst c2 - fst c1) > 180 \<or> (0 < fst c1 \<and> 0 < fst c2) \<or> (fst c1 < 0 \<and> fst c2 < 0)) \<and>
      edges_keep_side (c2 # rest))"
| "edges_keep_side _ = True"

fun jump_count :: "ring \<Rightarrow> nat" where
  "jump_count (c1 # c2 # rest) =
     (if abs (fst c2 - fst c1) > 180 then 1 else 0) + jump_count (c2 # rest)"
| "jump_count _ = 0"

definition on_side :: "bool \<Rightarrow> coord \<Rightarrow> bool" where
  "on_side positive c = (if positive then 0 < fst c else fst c < 0)"

definition on_seam :: "coord \<Rightarrow> bool" where
  "on_seam c = (fst c = 180 \<or> fst c = -180)"

text \<open>
  Invariants of the walk. \<open>sides_kept\<close>: the stored parts and the current part lie on
  their sides of 0, for a walk that started on the side \<open>start\<close>. \<open>started\<close>: a
  crossing has been passed, so a part is stored, ends on the seam, and the current part
  begins on the seam. \<open>retained\<close>: the points of the state that the end of the
  function keeps, as long as no stored part has been overwritten (\<open>well_phased\<close>,
  with \<open>phase\<close> counting the crossings passed, up to two).
\<close>

definition sides_kept :: "bool \<Rightarrow> split_state \<Rightarrow> bool" where
  "sides_kept start s =
     (list_all (on_side start) (west_part s) \<and>
      list_all (on_side (\<not> start)) (east_part s) \<and>
      list_all (on_side (is_west s = start)) (current_part s))"

definition started :: "split_state \<Rightarrow> bool" where
  "started s =
     (west_part s \<noteq> [] \<and> on_seam (last (west_part s)) \<and>
      current_part s \<noteq> [] \<and> on_seam (hd (current_part s)) \<and>
      (if east_part s = [] then \<not> is_west s else on_seam (last (east_part s))))"

definition phase :: "split_state \<Rightarrow> nat" where
  "phase s = (if is_west s then (if west_part s = [] then 0 else 2) else 1)"

definition well_phased :: "split_state \<Rightarrow> bool" where
  "well_phased s =
     (if is_west s then (if west_part s = [] then east_part s = [] else current_part s \<noteq> [])
      else west_part s \<noteq> [] \<and> east_part s = [] \<and> current_part s \<noteq> [])"

definition retained :: "split_state \<Rightarrow> coord set" where
  "retained s =
     (if is_west s
      then (if west_part s = [] then set (current_part s)
            else set (west_part s) \<union> set (east_part s) \<union> set (tl (current_part s)))
      else set (west_part s) \<union> set (current_part s))"

section \<open>fix-dateline-final.py: the unifying shift\<close>

text \<open>\<open>all_lons\<close>: the longitudes of every ring of every polygon, in order.\<close>

definition all_coords :: "multipolygon \<Rightarrow> coord list" where
  "all_coords coordinates = concat (map concat coordinates)"

definition all_lons :: "multipolygon \<Rightarrow> real list" where
  "all_lons coordinates = map fst (all_coords coordinates)"

text \<open>Python's \<open>min\<close> and \<open>max\<close> of a non-empty list (the callers test for emptiness).\<close>

definition py_min :: "real list \<Rightarrow> real" where
  "py_min xs = fold min (tl xs) (hd xs)"

definition py_max :: "real list \<Rightarrow> real" where
  "py_max xs = fold max (tl xs) (hd xs)"

text \<open>
  \<open>for i, coord in enumerate(ring): ... if lon < 0: ring[i] = [lon + 360, lat]\<close>:
  the ring is updated in place, index by index.
\<close>

definition shift_at :: "nat \<Rightarrow> ring \<Rightarrow> ring" where
  "shift_at i ring =
     (case ring ! i of (lon, lat) \<Rightarrow>
        if lon < 0 then ring[i := (lon + 360, lat)] else ring)"

definition shift_ring :: "ring \<Rightarrow> ring" where
  "shift_ring ring = fold shift_at [0..<length ring] ring"

text \<open>The body of the loop over the features in \<open>fix_dateline_crossing\<close>.\<close>

definition fix_feature :: "feature \<Rightarrow> feature" where
  "fix_feature f =
     (case geometry f of
        MultiPolygon coordinates \<Rightarrow>
          let lons = all_lons coordinates in
          if lons \<noteq> [] then
            let min_lon = py_min lons; max_lon = py_max lons in
            if min_lon < -170 \<and> max_lon > 170
            then f\<lparr>geometry := MultiPolygon (map (map shift_ring) coordinates)\<rparr>
            else f
          else f
      | OtherGeometry t \<Rightarrow> f)"

text \<open>\<open>fix_dateline_crossing\<close> without its file access. It raises nothing.\<close>

definition fix_dateline_crossing :: "feature list \<Rightarrow> feature list" where
  "fix_dateline_crossing features = map fix_feature features"

text \<open>What the shift does to one position, for stating the result.\<close>

definition shift_coord :: "coord \<Rightarrow> coord" where
  "shift_coord c = (if fst c < 0 then (fst c + 360, snd c) else c)"

section \<open>split-dateline-v2.py: the sign partition\<close>

text \<open>
  The loop over the outer ring that fills \<open>east_points\<close> and \<open>west_points\<close>.
\<close>

fun sign_partition :: "ring \<Rightarrow> ring \<Rightarrow> ring \<Rightarrow> ring \<times> ring" where
  "sign_partition [] east_points west_points = (east_points, west_points)"
| "sign_partition ((lon, lat) # rest) east_points west_points =
     (if lon > 0
      then sign_partition rest (east_points @ [(lon, lat)]) west_points
      else sign_partition rest east_points (west_points @ [(lon, lat)]))"

definition shift_east :: "coord \<Rightarrow> coord" where
  "shift_east c = (case c of (lon, lat) \<Rightarrow> if lon > 170 then (lon - 360, lat) else (lon, lat))"

definition shift_west :: "coord \<Rightarrow> coord" where
  "shift_west c = (case c of (lon, lat) \<Rightarrow> if lon < -170 then (lon + 360, lat) else (lon, lat))"

text \<open>
  The parts (each the coordinates of a MultiPolygon of one polygon of one ring) that the
  east group and the west group append to \<open>parts_to_split\<close>.
\<close>

definition east_parts :: "ring \<Rightarrow> multipolygon list" where
  "east_parts east_points =
     (if east_points \<noteq> [] \<and> length east_points > 3 then
        let east_polygon = close_ring (map shift_east east_points)
        in if length east_polygon > 3 then [[[east_polygon]]] else []
      else [])"

definition west_parts :: "ring \<Rightarrow> multipolygon list" where
  "west_parts west_points =
     (if west_points \<noteq> [] \<and> length west_points > 3 then
        let west_polygon = close_ring (map shift_west west_points)
        in if length west_polygon > 3 then [[[west_polygon]]] else []
      else [])"

text \<open>The span test on an outer ring that has at least one point.\<close>

definition span_exceeds :: "ring \<Rightarrow> bool" where
  "span_exceeds outer_ring =
     (let lons = map fst outer_ring; min_lon = py_min lons; max_lon = py_max lons
      in (max_lon - min_lon) > 350)"

text \<open>
  One iteration of the loop over the polygons: whether the polygon crosses, and the parts
  it appends. \<open>polygon[0]\<close> raises IndexError on a polygon without rings, \<open>min(lons)\<close>
  raises ValueError on an outer ring without points.
\<close>

definition polygon_parts :: "polygon \<Rightarrow> error + (bool \<times> multipolygon list)" where
  "polygon_parts polygon =
     (case polygon of
        [] \<Rightarrow> Inl IndexError
      | outer_ring # holes \<Rightarrow>
          if outer_ring = [] then Inl ValueError
          else if span_exceeds outer_ring then
            (case sign_partition outer_ring [] [] of
               (east_points, west_points) \<Rightarrow>
                 Inr (True, east_parts east_points @ west_parts west_points))
          else Inr (False, [[polygon]]))"

fun collect_parts ::
  "multipolygon \<Rightarrow> bool \<Rightarrow> multipolygon list \<Rightarrow> error + (bool \<times> multipolygon list)" where
  "collect_parts [] has_crossing parts_to_split = Inr (has_crossing, parts_to_split)"
| "collect_parts (polygon # rest) has_crossing parts_to_split =
     (case polygon_parts polygon of
        Inl e \<Rightarrow> Inl e
      | Inr (crossing, new) \<Rightarrow>
          collect_parts rest (has_crossing \<or> crossing) (parts_to_split @ new))"

text \<open>
  The feature built for part \<open>part_idx\<close> of \<open>n\<close>: a copy of the properties, with
  \<open>_part\<close> set to \<open>part_idx + 1\<close> when there is more than one part.
\<close>

definition part_feature :: "props \<Rightarrow> nat \<Rightarrow> nat \<Rightarrow> multipolygon \<Rightarrow> feature" where
  "part_feature props n part_idx part_coords =
     \<lparr>properties =
        (if n > 1 then AList.update ''_part'' (JInt (int part_idx + 1)) props else props),
      geometry = MultiPolygon part_coords\<rparr>"

definition emit_parts :: "props \<Rightarrow> multipolygon list \<Rightarrow> feature list" where
  "emit_parts props parts_to_split =
     map (\<lambda>(part_idx, part_coords).
            part_feature props (length parts_to_split) part_idx part_coords)
         (enumerate 0 parts_to_split)"

text \<open>The body of the loop over the features in the second \<open>process_geojson\<close>.\<close>

definition process_feature_v2 :: "feature \<Rightarrow> error + feature list" where
  "process_feature_v2 f =
     (case geometry f of
        MultiPolygon coordinates \<Rightarrow>
          (case collect_parts coordinates False [] of
             Inl e \<Rightarrow> Inl e
           | Inr (has_crossing, parts_to_split) \<Rightarrow>
               if has_crossing then Inr (emit_parts (properties f) parts_to_split)
               else Inr [f])
      | OtherGeometry t \<Rightarrow> Inr [f])"

fun process_features_v2 :: "feature list \<Rightarrow> feature list \<Rightarrow> error + feature list" where
  "process_features_v2 [] new_features = Inr new_features"
| "process_features_v2 (f # rest) new_features =
     (case process_feature_v2 f of
        Inl e \<Rightarrow> Inl e
      | Inr fs \<Rightarrow> process_features_v2 rest (new_features @ fs))"

definition process_geojson_v2 :: "feature list \<Rightarrow> error + feature list" where
  "process_geojson_v2 features = process_features_v2 features []"

section \<open>Inputs of the scenarios\<close>

text \<open>The ring of Scenario A: a strip from 179 over the seam to -179.\<close>

definition scenario_A :: ring where
  "scenario_A = [(179, 0), (-179, 0), (-179, 10), (179, 10), (179, 0)]"

text \<open>
  A ring around the pole, starting west of 0: it passes the seam once, between -170 and
  170, and comes back through longitude 0 without any jump.
\<close>

definition one_crossing :: ring where
  "one_crossing = [(-170, 0), (170, 0), (90, 10), (0, 20), (-90, 10), (-170, 0)]"

text \<open>The strip of Scenario A walked from its western side.\<close>

definition strip_from_west :: ring where
  "strip_from_west = [(-179, 0), (179, 0), (179, 10), (-179, 10), (-179, 0)]"

text \<open>A small triangle inside the strip of Scenario A, east of the seam.\<close>

definition hole_A :: ring where
  "hole_A = [(717/4, 2), (719/4, 2), (359/2, 4), (717/4, 2)]"



text \<open>A feature with a longitude far outside the conventional range, below -360.\<close>

definition unify_far :: feature where
  "unify_far = \<lparr>properties = [(''id'', JStr ''far'')],
     geometry = MultiPolygon [[[(-400, 0), (175, 0), (175, 5), (-400, 0)]]]\<rparr>"

text \<open>The feature of Scenario C: an outer ring from -179 to 179 with a hole, and a second polygon far from the seam.\<close>

definition scenario_C :: feature where
  "scenario_C = \<lparr>properties = [(''id'', JStr ''C'')],
     geometry = MultiPolygon [[[(-179, 0), (179, 0), (179, 10), (-179, 10), (-179, 0)],
                               [(-1795/10, 2), (1795/10, 2), (1795/10, 4), (-1795/10, 2)]],
                              [[(5, 5), (6, 5), (6, 6), (5, 5)]]]\<rparr>"

text \<open>A feature with a longitude below -530.\<close>

definition unify_twice :: feature where
  "unify_twice = \<lparr>properties = [(''id'', JStr ''twice'')],
     geometry = MultiPolygon [[[(-600, 0), (175, 0), (175, 5), (-600, 0)]]]\<rparr>"

text \<open>A ring for Scenario D: five points east of 0 (the closing point among them) and three west of 0, spanning 358 degrees.\<close>

definition scenario_D :: ring where
  "scenario_D = [(175, 0), (178, 0), (179, 5), (178, 10), (-179, 10), (-178, 5), (-179, 0), (175, 0)]"

text \<open>A ring over the seam with six points east of 0 and five west of 0.\<close>

definition wide_ring :: ring where
  "wide_ring = [(176, 0), (178, 0), (179, 5), (178, 10), (176, 10),
                (-176, 10), (-178, 10), (-179, 5), (-178, 0), (-176, 0), (176, 0)]"

text \<open>A small triangle over the seam: two points on either side of 0, spanning 352 degrees.\<close>

definition tiny_triangle :: ring where
  "tiny_triangle = [(-176, 0), (176, 0), (176, 5), (-176, 0)]"

text \<open>A square far from the seam.\<close>

definition square :: ring where
  "square = [(0, 0), (10, 0), (10, 10), (0, 10), (0, 0)]"

section \<open>The interpolating split: results\<close>

lemmas split_eval =
  split_polygon_at_dateline_def split_init_def split_edge_def store_part_def
  close_ring_def Let_def

text \<open>
  C1. On the ring of Scenario A the split returns two closed rings. The second holds both
  seam points \<open>(-180, 0)\<close> and \<open>(-180, 10)\<close>; the first holds \<open>(180, 0)\<close> but not
  \<open>(180, 10)\<close>: the part that resumes at \<open>(180, 10)\<close> after the second crossing is
  joined to the stored part by \<open>current_part[1:]\<close>, which removes that seam point.
\<close>

theorem scenario_A_split:
  "split_polygon_at_dateline scenario_A =
     Inr ([(179, 0), (180, 0), (179, 10), (179, 0)],
          [(-180, 0), (-179, 0), (-179, 10), (-180, 10), (-180, 0)])"
  by (simp add: scenario_A_def split_eval)

subsection \<open>The walk over the edges\<close>

lemma split_edge_Inl: "split_edge c1 c2 s = Inl e \<Longrightarrow> e = ZeroDivisionError \<and> degenerate_edge c1 c2"
  by (auto simp: split_edge_def degenerate_edge_def Let_def split: prod.splits if_splits)


lemma split_edge_within:
  "split_edge c1 c2 s = Inr s' \<Longrightarrow> c1 \<in> A \<Longrightarrow> parts_within (seam_or_from A) s
   \<Longrightarrow> parts_within (seam_or_from A) s'"
  by (auto simp: split_edge_def store_part_def parts_within_def seam_or_from_def Let_def
           split: prod.splits if_splits)

lemma split_walk_within:
  "split_walk xs s = Inr s' \<Longrightarrow> set xs \<subseteq> A \<Longrightarrow> parts_within (seam_or_from A) s
   \<Longrightarrow> parts_within (seam_or_from A) s'"
proof (induction xs s rule: split_walk.induct)
  case (1 c1 c2 rest s)
  then show ?case
    by (auto split: sum.splits dest: split_edge_within)
qed auto

lemma split_walk_Inl:
  "split_walk xs s = Inl e \<Longrightarrow> e = ZeroDivisionError \<and> has_degenerate_edge xs"
proof (induction xs s rule: split_walk.induct)
  case (1 c1 c2 rest s)
  then show ?case
    by (auto split: sum.splits dest: split_edge_Inl)
qed auto


lemma close_ring_closed: "close_ring r \<noteq> [] \<Longrightarrow> hd (close_ring r) = last (close_ring r)"
  by (auto simp: close_ring_def)

lemma set_close_ring: "set (close_ring r) = set r"
  by (auto simp: close_ring_def)

lemma set_tl_subset: "set (tl xs) \<subseteq> set xs"
  by (cases xs) auto

lemma split_within:
  assumes "split_polygon_at_dateline coords = Inr (west, east)"
  shows "set west \<union> set east \<subseteq> seam_or_from (set coords)"
proof -
  let ?B = "seam_or_from (set coords)"
  from assms obtain s where w: "split_walk coords split_init = Inr s"
    by (auto simp: split_polygon_at_dateline_def split: sum.splits)
  define cp where "cp = (if coords \<noteq> [] then current_part s @ [last coords] else current_part s)"
  have "parts_within ?B split_init"
    by (simp add: parts_within_def split_init_def)
  with w have pw: "parts_within ?B s"
    by (rule split_walk_within[OF _ subset_refl])
  have "coords \<noteq> [] \<Longrightarrow> last coords \<in> ?B"
    by (simp add: seam_or_from_def)
  with pw have cp: "set cp \<subseteq> ?B"
    by (auto simp: cp_def parts_within_def)
  with set_tl_subset[of cp] have tl: "set (tl cp) \<subseteq> ?B"
    by blast
  from assms w have we:
    "west = close_ring (if is_west s then (if west_part s = [] then cp else west_part s @ tl cp)
                        else west_part s)"
    "east = close_ring (if is_west s then east_part s
                        else (if east_part s = [] then cp else east_part s @ tl cp))"
    by (auto simp: split_polygon_at_dateline_def Let_def cp_def)
  from pw cp tl have "set west \<subseteq> ?B"
    unfolding we by (auto simp: set_close_ring parts_within_def)
  moreover from pw cp tl have "set east \<subseteq> ?B"
    unfolding we by (auto simp: set_close_ring parts_within_def)
  ultimately show ?thesis by simp
qed

lemma split_closed:
  assumes "split_polygon_at_dateline coords = Inr (west, east)"
  shows "(west \<noteq> [] \<longrightarrow> hd west = last west) \<and> (east \<noteq> [] \<longrightarrow> hd east = last east)"
  using assms
  by (auto simp: split_polygon_at_dateline_def Let_def split: sum.splits
           intro!: close_ring_closed)

lemma split_Inl:
  "split_polygon_at_dateline coords = Inl e \<Longrightarrow> e = ZeroDivisionError \<and> has_degenerate_edge coords"
  by (auto simp: split_polygon_at_dateline_def Let_def split: sum.splits dest: split_walk_Inl)


lemma split_returns:
  "\<not> has_degenerate_edge coords \<Longrightarrow> \<exists>west east. split_polygon_at_dateline coords = Inr (west, east)"
  by (cases "split_polygon_at_dateline coords") (auto dest: split_Inl)

lemma process_loop_acc:
  "process_loop ps acc = (case process_loop ps [] of Inl e \<Rightarrow> Inl e | Inr r \<Rightarrow> Inr (acc @ r))"
proof (induction ps arbitrary: acc)
  case Nil
  then show ?case by simp
next
  case (Cons p ps)
  show ?case
  proof (cases "process_polygon p")
    case (Inl e)
    then show ?thesis by simp
  next
    case (Inr new)
    then show ?thesis
      using Cons.IH[of "acc @ new"] Cons.IH[of new]
      by (simp split: sum.splits)
  qed
qed

lemma process_multipolygon_Cons:
  "process_multipolygon (p # ps) =
     (case process_polygon p of
        Inl e \<Rightarrow> Inl e
      | Inr new \<Rightarrow> (case process_multipolygon ps of Inl e \<Rightarrow> Inl e | Inr r \<Rightarrow> Inr (new @ r)))"
proof (cases "process_polygon p")
  case (Inl e)
  then show ?thesis by (simp add: process_multipolygon_def)
next
  case (Inr new)
  then show ?thesis
    using process_loop_acc[of ps new]
    by (simp add: process_multipolygon_def)
qed

lemma process_multipolygon_Nil: "process_multipolygon [] = Inr []"
  by (simp add: process_multipolygon_def)

lemma process_multipolygon_append:
  "process_multipolygon (ps @ qs) =
     (case process_multipolygon ps of
        Inl e \<Rightarrow> Inl e
      | Inr r1 \<Rightarrow> (case process_multipolygon qs of Inl e \<Rightarrow> Inl e | Inr r2 \<Rightarrow> Inr (r1 @ r2)))"
  by (induction ps)
     (auto simp: process_multipolygon_Cons process_multipolygon_Nil split: sum.splits)

lemma process_polygon_unflagged:
  "\<not> crosses_dateline outer_ring \<Longrightarrow> process_polygon (outer_ring # holes) = Inr [outer_ring # holes]"
  by (simp add: process_polygon_def)

lemma process_polygon_flagged:
  "crosses_dateline outer_ring \<Longrightarrow> process_polygon (outer_ring # holes) = Inr new \<Longrightarrow>
   \<exists>west east. split_polygon_at_dateline outer_ring = Inr (west, east) \<and>
     new = (if length west > 3 then [[west]] else []) @ (if length east > 3 then [[east]] else [])"
proof -
  assume c: "crosses_dateline outer_ring" and r: "process_polygon (outer_ring # holes) = Inr new"
  then obtain west east where s: "split_polygon_at_dateline outer_ring = Inr (west, east)"
    by (cases "split_polygon_at_dateline outer_ring") (auto simp: process_polygon_def)
  with c r have "new = (if length west > 3 then [[west]] else []) @ (if length east > 3 then [[east]] else [])"
    by (auto simp: process_polygon_def)
  with s show ?thesis by blast
qed

lemma process_multipolygon_concat:
  "process_multipolygon mp = Inr res \<Longrightarrow>
   \<exists>rs. length rs = length mp \<and> res = concat rs \<and>
        (\<forall>i < length mp. process_polygon (mp ! i) = Inr (rs ! i))"
proof (induction mp arbitrary: res)
  case Nil
  then show ?case by (simp add: process_multipolygon_Nil)
next
  case (Cons p ps)
  from Cons.prems obtain new r where
    p: "process_polygon p = Inr new" and ps: "process_multipolygon ps = Inr r"
    and res: "res = new @ r"
    by (auto simp: process_multipolygon_Cons split: sum.splits)
  from Cons.IH[OF ps] obtain rs where
    rs: "length rs = length ps" "r = concat rs"
        "\<forall>i < length ps. process_polygon (ps ! i) = Inr (rs ! i)"
    by blast
  have "\<forall>i < length (p # ps). process_polygon ((p # ps) ! i) = Inr ((new # rs) ! i)"
    using p rs(3) by (auto simp: nth_Cons split: nat.splits)
  with rs res show ?case
    by (intro exI[of _ "new # rs"]) simp
qed




lemma has_degenerate_edge_crosses: "has_degenerate_edge xs \<Longrightarrow> crosses_dateline xs"
  by (induction xs rule: crosses_dateline.induct) (auto simp: degenerate_edge_def)



lemma process_polygon_Inl:
  "process_polygon p = Inl e \<Longrightarrow> p = [] \<or> has_degenerate_edge (hd p)"
  by (auto simp: process_polygon_def split: list.splits if_splits sum.splits dest: split_Inl)

lemma process_multipolygon_Inl:
  "process_multipolygon mp = Inl e \<Longrightarrow> \<exists>p \<in> set mp. p = [] \<or> has_degenerate_edge (hd p)"
  by (induction mp)
     (auto simp: process_multipolygon_Cons process_multipolygon_Nil split: sum.splits
           dest: process_polygon_Inl)

lemma needs_split_Inl: "needs_split mp = Inl e \<Longrightarrow> \<exists>p \<in> set mp. p = []"
  by (induction mp) (auto split: list.splits if_splits)

lemma needs_split_False:
  "needs_split mp = Inr False \<Longrightarrow> \<forall>p \<in> set mp. p \<noteq> [] \<and> \<not> crosses_dateline (hd p)"
  by (induction mp) (auto split: list.splits if_splits)

lemma process_feature_Inl:
  "process_feature f = Inl e \<Longrightarrow> geometry f = MultiPolygon mp \<Longrightarrow>
   \<exists>p \<in> set mp. p = [] \<or> has_degenerate_edge (hd p)"
  by (auto simp: process_feature_def split: sum.splits bool.splits
           dest: needs_split_Inl process_multipolygon_Inl)





lemma seam_or_from_range:
  "\<forall>c \<in> A. -180 \<le> fst c \<and> fst c \<le> 180 \<Longrightarrow> c \<in> seam_or_from A \<Longrightarrow> -180 \<le> fst c \<and> fst c \<le> 180"
  by (auto simp: seam_or_from_def)

subsection \<open>Sides\<close>

lemma split_edge_sides:
  assumes "split_edge c1 c2 s = Inr s1"
    and "-180 \<le> fst c1" "fst c1 \<le> 180" "-180 \<le> fst c2" "fst c2 \<le> 180"
    and "abs (fst c2 - fst c1) > 180 \<or> (0 < fst c1 \<and> 0 < fst c2) \<or> (fst c1 < 0 \<and> fst c2 < 0)"
    and "sides_kept start s" and "on_side (is_west s = start) c1"
  shows "sides_kept start s1 \<and> on_side (is_west s1 = start) c2"
proof (cases "abs (fst c2 - fst c1) > 180")
  case False
  with assms(1) have s1: "s1 = s\<lparr>current_part := current_part s @ [c1]\<rparr>"
    by (auto simp: split_edge_def Let_def split: prod.splits)
  from False assms(6,8) have "on_side (is_west s = start) c2"
    by (auto simp: on_side_def split: if_splits)
  with assms(7,8) show ?thesis
    by (simp add: s1 sides_kept_def)
next
  case True
  show ?thesis
  proof (cases "0 < fst c1")
    case pos: True
    with True assms(2-5) have c2: "fst c2 < 0" by auto
    from pos assms(8) have cur: "(is_west s = start) = True"
      by (auto simp: on_side_def split: if_splits)
    from True pos assms(1) obtain lat where
      s1: "s1 = store_part s (current_part s @ [c1, (180, lat)]) (-180, lat)"
      by (auto simp: split_edge_def Let_def split: prod.splits if_splits)
    from assms(7,8) cur c2 show ?thesis
      by (cases "is_west s") (auto simp: s1 store_part_def sides_kept_def on_side_def)
  next
    case neg: False
    with True assms(2-5) have c2: "0 < fst c2" by auto
    from neg assms(8) have cur: "(is_west s = start) = False"
      by (auto simp: on_side_def split: if_splits)
    from True neg assms(1) obtain lat where
      s1: "s1 = store_part s (current_part s @ [c1, (-180, lat)]) (180, lat)"
      by (auto simp: split_edge_def Let_def split: prod.splits if_splits)
    from assms(7,8) cur c2 show ?thesis
      by (cases "is_west s") (auto simp: s1 store_part_def sides_kept_def on_side_def)
  qed
qed

lemma split_walk_sides:
  "split_walk xs s = Inr s' \<Longrightarrow> xs \<noteq> [] \<Longrightarrow> in_range xs \<Longrightarrow> edges_keep_side xs \<Longrightarrow>
   sides_kept start s \<Longrightarrow> on_side (is_west s = start) (hd xs) \<Longrightarrow>
   sides_kept start s' \<and> on_side (is_west s' = start) (last xs)"
proof (induction xs s rule: split_walk.induct)
  case (1 c1 c2 rest s)
  from "1.prems"(1) obtain s1 where e: "split_edge c1 c2 s = Inr s1"
    and w: "split_walk (c2 # rest) s1 = Inr s'"
    by (auto split: sum.splits)
  from "1.prems"(3) have r: "-180 \<le> fst c1" "fst c1 \<le> 180" "-180 \<le> fst c2" "fst c2 \<le> 180"
    and r': "in_range (c2 # rest)"
    by (simp_all add: in_range_def)
  from "1.prems"(4) have k: "abs (fst c2 - fst c1) > 180 \<or> (0 < fst c1 \<and> 0 < fst c2) \<or> (fst c1 < 0 \<and> fst c2 < 0)"
    and k': "edges_keep_side (c2 # rest)"
    by simp_all
  from split_edge_sides[OF e r k "1.prems"(5)] "1.prems"(6)
  have "sides_kept start s1" "on_side (is_west s1 = start) (hd (c2 # rest))"
    by simp_all
  with "1.IH"[OF e w _ r' k'] show ?case by simp
qed simp_all

lemma list_all_tl: "list_all P xs \<Longrightarrow> list_all P (tl xs)"
  by (cases xs) simp_all

lemma list_all_close_ring: "list_all P (close_ring r) = list_all P r"
  by (cases r) (auto simp: close_ring_def)

lemma split_sides:
  assumes "split_polygon_at_dateline coords = Inr (west, east)"
    and "coords \<noteq> []" and "in_range coords" and "edges_keep_side coords"
    and "on_side start (hd coords)"
  shows "list_all (on_side start) west \<and> list_all (on_side (\<not> start)) east"
proof -
  from assms(1) obtain s where w: "split_walk coords split_init = Inr s"
    by (auto simp: split_polygon_at_dateline_def split: sum.splits)
  have i: "sides_kept start split_init" "on_side (is_west split_init = start) (hd coords)"
    using assms(5) by (simp_all add: sides_kept_def split_init_def)
  from split_walk_sides[OF w assms(2,3,4) i]
  have k: "sides_kept start s" and l: "on_side (is_west s = start) (last coords)"
    by simp_all
  define cp where "cp = current_part s @ [last coords]"
  from k l have cp: "list_all (on_side (is_west s = start)) cp"
    by (simp add: cp_def sides_kept_def)
  then have tl: "list_all (on_side (is_west s = start)) (tl cp)"
    by (rule list_all_tl)
  from assms(1,2) w have we:
    "west = close_ring (if is_west s then (if west_part s = [] then cp else west_part s @ tl cp)
                        else west_part s)"
    "east = close_ring (if is_west s then east_part s
                        else (if east_part s = [] then cp else east_part s @ tl cp))"
    by (auto simp: split_polygon_at_dateline_def Let_def cp_def)
  from k cp tl have "list_all (on_side start) west"
    unfolding we list_all_close_ring by (auto simp: sides_kept_def)
  moreover from k cp tl have "list_all (on_side (\<not> start)) east"
    unfolding we list_all_close_ring by (auto simp: sides_kept_def)
  ultimately show ?thesis by simp
qed

subsection \<open>Both parts exist\<close>

lemma split_edge_started:
  assumes "split_edge c1 c2 s = Inr s1"
    and "started s \<or> (is_west s \<and> east_part s = [] \<and> abs (fst c2 - fst c1) > 180)"
  shows "started s1"
proof (cases "abs (fst c2 - fst c1) > 180")
  case False
  with assms(1) have s1: "s1 = s\<lparr>current_part := current_part s @ [c1]\<rparr>"
    by (auto simp: split_edge_def Let_def split: prod.splits)
  from False assms(2) show ?thesis
    by (auto simp: s1 started_def)
next
  case True
  show ?thesis
  proof (cases "0 < fst c1")
    case pos: True
    with True assms(1) obtain lat where
      s1: "s1 = store_part s (current_part s @ [c1, (180, lat)]) (-180, lat)"
      by (auto simp: split_edge_def Let_def split: prod.splits if_splits)
    from assms(2) show ?thesis
      by (auto simp: s1 store_part_def started_def on_seam_def split: if_splits)
  next
    case neg: False
    with True assms(1) obtain lat where
      s1: "s1 = store_part s (current_part s @ [c1, (-180, lat)]) (180, lat)"
      by (auto simp: split_edge_def Let_def split: prod.splits if_splits)
    from assms(2) show ?thesis
      by (auto simp: s1 store_part_def started_def on_seam_def split: if_splits)
  qed
qed

lemma split_walk_started:
  "split_walk xs s = Inr s' \<Longrightarrow>
   started s \<or> (is_west s \<and> east_part s = [] \<and> crosses_dateline xs) \<Longrightarrow> started s'"
proof (induction xs s rule: split_walk.induct)
  case (1 c1 c2 rest s)
  from "1.prems"(1) obtain s1 where e: "split_edge c1 c2 s = Inr s1"
    and w: "split_walk (c2 # rest) s1 = Inr s'"
    by (auto split: sum.splits)
  have c: "crosses_dateline (c1 # c2 # rest) =
             (abs (fst c2 - fst c1) > 180 \<or> crosses_dateline (c2 # rest))"
    by (cases c1; cases c2) simp
  show ?case
  proof (cases "started s \<or> abs (fst c2 - fst c1) > 180")
    case True
    with "1.prems"(2) have "started s \<or> (is_west s \<and> east_part s = [] \<and> abs (fst c2 - fst c1) > 180)"
      by auto
    from split_edge_started[OF e this] "1.IH"[OF e w] show ?thesis by simp
  next
    case False
    with "1.prems"(2) c have f: "is_west s" "east_part s = []" "crosses_dateline (c2 # rest)"
      by auto
    from False e have "s1 = s\<lparr>current_part := current_part s @ [c1]\<rparr>"
      by (auto simp: split_edge_def Let_def split: prod.splits if_splits)
    with f have "is_west s1 \<and> east_part s1 = []" by simp
    with f "1.IH"[OF e w] show ?thesis by simp
  qed
qed auto

lemma close_ring_Nil: "close_ring r = [] \<longleftrightarrow> r = []"
  by (simp add: close_ring_def)

lemma split_started:
  assumes "split_polygon_at_dateline coords = Inr (west, east)" and "crosses_dateline coords"
  shows "west \<noteq> [] \<and> east \<noteq> [] \<and> (\<exists>c \<in> set west. on_seam c) \<and> (\<exists>c \<in> set east. on_seam c)"
proof -
  from assms(1) obtain s where w: "split_walk coords split_init = Inr s"
    by (auto simp: split_polygon_at_dateline_def split: sum.splits)
  from assms(2) have ne: "coords \<noteq> []" by auto
  from split_walk_started[OF w] assms(2) have st: "started s"
    by (simp add: split_init_def)
  define cp where "cp = current_part s @ [last coords]"
  from st have cp: "cp \<noteq> []" "on_seam (hd cp)" "hd cp \<in> set cp"
    by (auto simp: cp_def started_def)
  from assms(1) ne w have we:
    "west = close_ring (if is_west s then (if west_part s = [] then cp else west_part s @ tl cp)
                        else west_part s)"
    "east = close_ring (if is_west s then east_part s
                        else (if east_part s = [] then cp else east_part s @ tl cp))"
    by (auto simp: split_polygon_at_dateline_def Let_def cp_def)
  from st have lw: "last (west_part s) \<in> set (west_part s)" "on_seam (last (west_part s))"
    by (auto simp: started_def)
  from st have le: "east_part s \<noteq> [] \<Longrightarrow> last (east_part s) \<in> set (east_part s) \<and> on_seam (last (east_part s))"
    by (auto simp: started_def)
  from st have iw: "is_west s \<Longrightarrow> east_part s \<noteq> []"
    by (auto simp: started_def split: if_splits)
  from st lw have "west \<noteq> [] \<and> (\<exists>c \<in> set west. on_seam c)"
    unfolding we by (auto simp: close_ring_Nil set_close_ring started_def)
  moreover from cp le iw have "east \<noteq> [] \<and> (\<exists>c \<in> set east. on_seam c)"
    unfolding we by (auto simp: close_ring_Nil set_close_ring)
  ultimately show ?thesis by simp
qed

subsection \<open>No point is lost up to two crossings\<close>

lemma split_edge_retained:
  assumes "split_edge c1 c2 s = Inr s1" and "well_phased s"
    and "phase s + (if abs (fst c2 - fst c1) > 180 then 1 else 0) \<le> 2"
  shows "well_phased s1 \<and> phase s1 = phase s + (if abs (fst c2 - fst c1) > 180 then 1 else 0) \<and>
         insert c1 (retained s) \<subseteq> retained s1"
proof (cases "abs (fst c2 - fst c1) > 180")
  case False
  with assms(1) have s1: "s1 = s\<lparr>current_part := current_part s @ [c1]\<rparr>"
    by (auto simp: split_edge_def Let_def split: prod.splits)
  from False assms(2) show ?thesis
    by (auto simp: s1 well_phased_def phase_def retained_def split: if_splits)
next
  case True
  with assms(1) obtain seam restart where
    s1: "s1 = store_part s (current_part s @ [c1, seam]) restart"
    by (auto simp: split_edge_def Let_def split: prod.splits if_splits)
  from True assms(2,3) show ?thesis
    by (auto simp: s1 store_part_def well_phased_def phase_def retained_def split: if_splits)
qed

lemma split_walk_retained:
  "split_walk xs s = Inr s' \<Longrightarrow> well_phased s \<Longrightarrow> phase s + jump_count xs \<le> 2 \<Longrightarrow>
   well_phased s' \<and> set (butlast xs) \<union> retained s \<subseteq> retained s'"
proof (induction xs s rule: split_walk.induct)
  case (1 c1 c2 rest s)
  from "1.prems"(1) obtain s1 where e: "split_edge c1 c2 s = Inr s1"
    and w: "split_walk (c2 # rest) s1 = Inr s'"
    by (auto split: sum.splits)
  from "1.prems"(3) have b: "phase s + (if abs (fst c2 - fst c1) > 180 then 1 else 0) \<le> 2"
    by (auto split: if_splits)
  from split_edge_retained[OF e "1.prems"(2) b]
  have p: "well_phased s1" "phase s1 = phase s + (if abs (fst c2 - fst c1) > 180 then 1 else 0)"
    "insert c1 (retained s) \<subseteq> retained s1" by simp_all
  from p(2) "1.prems"(3) have "phase s1 + jump_count (c2 # rest) \<le> 2"
    by (auto split: if_splits)
  from "1.IH"[OF e w p(1) this] p(3) show ?case by auto
qed auto

lemma split_retained:
  assumes "split_polygon_at_dateline coords = Inr (west, east)" and "jump_count coords \<le> 2"
  shows "set coords \<subseteq> set west \<union> set east"
proof (cases "coords = []")
  case True
  then show ?thesis by simp
next
  case ne: False
  from assms(1) obtain s where w: "split_walk coords split_init = Inr s"
    by (auto simp: split_polygon_at_dateline_def split: sum.splits)
  have "well_phased split_init" "phase split_init = 0"
    by (simp_all add: well_phased_def phase_def split_init_def)
  with split_walk_retained[OF w] assms(2)
  have wp: "well_phased s" and r: "set (butlast coords) \<subseteq> retained s"
    by simp_all
  define cp where "cp = current_part s @ [last coords]"
  from assms(1) ne w have we:
    "west = close_ring (if is_west s then (if west_part s = [] then cp else west_part s @ tl cp)
                        else west_part s)"
    "east = close_ring (if is_west s then east_part s
                        else (if east_part s = [] then cp else east_part s @ tl cp))"
    by (auto simp: split_polygon_at_dateline_def Let_def cp_def)
  from wp have "insert (last coords) (retained s) \<subseteq> set west \<union> set east"
    unfolding we set_close_ring
    by (auto simp: cp_def retained_def well_phased_def split: if_splits)
  moreover from ne have "set coords = insert (last coords) (set (butlast coords))"
    by (metis append_butlast_last_id list.simps(15) rotate1.simps(2) set_rotate1)
  ultimately show ?thesis using r by auto
qed

lemma crossing_start_nonzero:
  "crosses_dateline coords \<Longrightarrow> in_range coords \<Longrightarrow> edges_keep_side coords \<Longrightarrow>
   fst (hd coords) \<noteq> 0"
  by (cases coords rule: crosses_dateline.cases) (auto simp: in_range_def)

lemma on_side_range:
  "list_all (on_side positive) r \<Longrightarrow> \<forall>c \<in> set r. -180 \<le> fst c \<and> fst c \<le> 180 \<Longrightarrow>
   \<forall>c \<in> set r. if positive then 0 < fst c \<and> fst c \<le> 180 else -180 \<le> fst c \<and> fst c < 0"
  by (auto simp: list_all_iff on_side_def)

text \<open>
  C2 (as amended). For every ring that the edge-jump test flags and that has no crossing
  edge with a zero divisor, the split returns a pair of two non-empty closed rings (first
  point equals last point). Every point of either part is a point of the input ring or
  lies on the seam, at longitude exactly 180 or -180, and each part holds a point on the
  seam. When the ring has at most two edge jumps, every point of the input ring is in one
  of the parts. When moreover all longitudes of the ring lie in \<open>[-180, 180]\<close> and
  every edge that is not an edge jump has both ends strictly on the same side of
  longitude 0, the two parts lie on opposite sides of 0, one within \<open>[-180, 0)\<close> and
  the other within \<open>(0, 180]\<close>; for a ring whose first longitude is negative the
  west part is the one within \<open>[-180, 0)\<close> and the east part the one within
  \<open>(0, 180]\<close>.
\<close>

theorem split_parts_closed_sourced_and_sided:
  assumes "crosses_dateline coords" and "\<not> has_degenerate_edge coords"
  shows "\<exists>west east. split_polygon_at_dateline coords = Inr (west, east) \<and>
           west \<noteq> [] \<and> east \<noteq> [] \<and> hd west = last west \<and> hd east = last east \<and>
           set west \<union> set east \<subseteq> seam_or_from (set coords) \<and>
           (\<exists>c \<in> set west. on_seam c) \<and> (\<exists>c \<in> set east. on_seam c) \<and>
           (jump_count coords \<le> 2 \<longrightarrow> set coords \<subseteq> set west \<union> set east) \<and>
           (in_range coords \<and> edges_keep_side coords \<longrightarrow>
              ((\<forall>c \<in> set west. -180 \<le> fst c \<and> fst c < 0) \<and>
               (\<forall>c \<in> set east. 0 < fst c \<and> fst c \<le> 180) \<or>
               (\<forall>c \<in> set west. 0 < fst c \<and> fst c \<le> 180) \<and>
               (\<forall>c \<in> set east. -180 \<le> fst c \<and> fst c < 0)) \<and>
              (fst (hd coords) < 0 \<longrightarrow>
                 (\<forall>c \<in> set west. -180 \<le> fst c \<and> fst c < 0) \<and>
                 (\<forall>c \<in> set east. 0 < fst c \<and> fst c \<le> 180)))"
proof -
  from assms(2) obtain west east where s: "split_polygon_at_dateline coords = Inr (west, east)"
    using split_returns by blast
  from assms(1) have ne: "coords \<noteq> []" by auto
  note w = split_within[OF s]
  from split_started[OF s assms(1)] have st:
    "west \<noteq> []" "east \<noteq> []" "\<exists>c \<in> set west. on_seam c" "\<exists>c \<in> set east. on_seam c"
    by simp_all
  from split_closed[OF s] st have cl: "hd west = last west" "hd east = last east"
    by simp_all
  have cov: "set coords \<subseteq> set west \<union> set east" if "jump_count coords \<le> 2"
    using split_retained[OF s that] .
  have sides:
    "((\<forall>c \<in> set west. -180 \<le> fst c \<and> fst c < 0) \<and>
      (\<forall>c \<in> set east. 0 < fst c \<and> fst c \<le> 180) \<or>
      (\<forall>c \<in> set west. 0 < fst c \<and> fst c \<le> 180) \<and>
      (\<forall>c \<in> set east. -180 \<le> fst c \<and> fst c < 0)) \<and>
     (fst (hd coords) < 0 \<longrightarrow>
        (\<forall>c \<in> set west. -180 \<le> fst c \<and> fst c < 0) \<and>
        (\<forall>c \<in> set east. 0 < fst c \<and> fst c \<le> 180))"
    if r: "in_range coords" and k: "edges_keep_side coords"
  proof -
    from r have "\<forall>c \<in> set coords. -180 \<le> fst c \<and> fst c \<le> 180"
      by (simp add: in_range_def list_all_iff)
    with w have b: "\<forall>c \<in> set west. -180 \<le> fst c \<and> fst c \<le> 180"
      "\<forall>c \<in> set east. -180 \<le> fst c \<and> fst c \<le> 180"
      using seam_or_from_range by blast+
    from crossing_start_nonzero[OF assms(1) r k]
    have o: "on_side (0 < fst (hd coords)) (hd coords)"
      by (auto simp: on_side_def)
    from split_sides[OF s ne r k o]
    have "list_all (on_side (0 < fst (hd coords))) west"
      "list_all (on_side (\<not> 0 < fst (hd coords))) east"
      by simp_all
    from on_side_range[OF this(1) b(1)] on_side_range[OF this(2) b(2)]
    show ?thesis
      by (cases "0 < fst (hd coords)") auto
  qed
  from s st cl w cov sides show ?thesis by blast
qed

text \<open>The statement at the strip of Scenario A walked from its western side.\<close>

theorem split_parts_closed_sourced_and_sided_witness:
  "crosses_dateline strip_from_west \<and> \<not> has_degenerate_edge strip_from_west \<and>
   in_range strip_from_west \<and> edges_keep_side strip_from_west \<and>
   jump_count strip_from_west = 2 \<and> fst (hd strip_from_west) = -179 \<and>
   split_polygon_at_dateline strip_from_west =
     Inr ([(-179, 0), (-180, 0), (-179, 10), (-179, 0)],
          [(180, 0), (179, 0), (179, 10), (180, 10), (180, 0)]) \<and>
   list_all (\<lambda>c. -180 \<le> fst c \<and> fst c < 0) [(-179, 0), (-180, 0), (-179, 10), (-179::real, 0::real)] \<and>
   list_all (\<lambda>c. 0 < fst c \<and> fst c \<le> 180)
     [(180, 0), (179, 0), (179, 10), (180, 10), (180::real, 0::real)] \<and>
   set strip_from_west \<subseteq>
     set [(-179, 0), (-180, 0), (-179, 10), (-179, 0)] \<union>
     set [(180, 0), (179, 0), (179, 10), (180, 10), (180, 0)]"
proof -
  have c: "crosses_dateline strip_from_west"
    by (simp add: strip_from_west_def)
  have d: "\<not> has_degenerate_edge strip_from_west"
    by (simp add: strip_from_west_def degenerate_edge_def)
  have r: "in_range strip_from_west" "edges_keep_side strip_from_west"
    "jump_count strip_from_west = 2" "fst (hd strip_from_west) = -179"
    by (simp_all add: strip_from_west_def in_range_def)
  have e: "split_polygon_at_dateline strip_from_west =
     Inr ([(-179, 0), (-180, 0), (-179, 10), (-179, 0)],
          [(180, 0), (179, 0), (179, 10), (180, 10), (180, 0)])"
    by (simp add: strip_from_west_def split_eval)
  from split_parts_closed_sourced_and_sided[OF c d] e r
  have "list_all (\<lambda>c. -180 \<le> fst c \<and> fst c < 0) [(-179, 0), (-180, 0), (-179, 10), (-179::real, 0::real)]"
    "list_all (\<lambda>c. 0 < fst c \<and> fst c \<le> 180)
       [(180, 0), (179, 0), (179, 10), (180, 10), (180::real, 0::real)]"
    "set strip_from_west \<subseteq>
       set [(-179, 0), (-180, 0), (-179, 10), (-179, 0)] \<union>
       set [(180, 0), (179, 0), (179, 10), (180, 10), (180, 0)]"
    by (simp_all add: list_all_iff)
  with c d r e show ?thesis by simp
qed

text \<open>
  On the ring around the pole, which starts west of 0, the west part is
  \<open>[(-170,0), (-180,0), (-170,0)]\<close> and the east part runs from 180 through 170, 90, 0
  and -90 to -170: its longitudes -90 and -170 are outside \<open>[0, 180]\<close>. On the strip
  of Scenario A, which starts east of 0, the part returned as west holds the longitudes
  179 and 180, outside \<open>[-180, 0]\<close>.
\<close>

theorem one_crossing_mixes_hemispheres:
  "crosses_dateline one_crossing \<and>
   split_polygon_at_dateline one_crossing =
     Inr ([(-170, 0), (-180, 0), (-170, 0)],
          [(180, 0), (170, 0), (90, 10), (0, 20), (-90, 10), (-170, 0), (180, 0)]) \<and>
   split_polygon_at_dateline scenario_A =
     Inr ([(179, 0), (180, 0), (179, 10), (179, 0)],
          [(-180, 0), (-179, 0), (-179, 10), (-180, 10), (-180, 0)])"
  by (simp add: one_crossing_def scenario_A_def split_eval)

subsection \<open>Polygons and features\<close>

text \<open>
  C7 (as amended). For every polygon whose outer ring has no edge jump of more than 180
  degrees, the processing of its feature, when it returns, returns that polygon unchanged:
  the outer ring at its position, first in the polygon, followed by the same holes. It
  does return when no other polygon of the feature is empty or has a crossing edge with a
  zero divisor. Only outer rings are tested; a hole ring without an edge jump is kept or
  lost with its polygon.
\<close>

theorem unflagged_outer_ring_kept:
  assumes "geometry f = MultiPolygon (ps @ (outer_ring # holes) # qs)"
    and "\<not> crosses_dateline outer_ring"
  shows "(\<forall>f'. process_feature f = Inr f' \<longrightarrow>
            (\<exists>r1 r2. geometry f' = MultiPolygon (r1 @ (outer_ring # holes) # r2))) \<and>
         ((\<forall>p \<in> set (ps @ qs). p \<noteq> [] \<and> \<not> has_degenerate_edge (hd p)) \<longrightarrow>
            (\<exists>f'. process_feature f = Inr f'))"
proof (intro conjI allI impI)
  fix f'
  assume r: "process_feature f = Inr f'"
  show "\<exists>r1 r2. geometry f' = MultiPolygon (r1 @ (outer_ring # holes) # r2)"
  proof (cases "needs_split (ps @ (outer_ring # holes) # qs)")
    case (Inl e)
    with r assms(1) show ?thesis by (simp add: process_feature_def)
  next
    case (Inr b)
    show ?thesis
    proof (cases b)
      case False
      with Inr r assms(1) have "f' = f" by (simp add: process_feature_def)
      with assms(1) show ?thesis by blast
    next
      case True
      with Inr r assms(1) obtain res where
        res: "process_multipolygon (ps @ (outer_ring # holes) # qs) = Inr res"
        and f': "f' = f\<lparr>geometry := MultiPolygon res\<rparr>"
        by (auto simp: process_feature_def split: sum.splits)
      from res assms(2) obtain r1 r2 where "res = r1 @ (outer_ring # holes) # r2"
        by (auto simp: process_multipolygon_append process_multipolygon_Cons
            process_polygon_unflagged split: sum.splits)
      with f' show ?thesis by auto
    qed
  qed
next
  assume ok: "\<forall>p \<in> set (ps @ qs). p \<noteq> [] \<and> \<not> has_degenerate_edge (hd p)"
  show "\<exists>f'. process_feature f = Inr f'"
  proof (cases "process_feature f")
    case (Inl e)
    from process_feature_Inl[OF Inl assms(1)] ok assms(2)
    show ?thesis by (auto dest: has_degenerate_edge_crosses)
  next
    case (Inr f')
    then show ?thesis by blast
  qed
qed

text \<open>
  The statement at a feature of the strip of Scenario A and a square far from the seam
  with a hole: the strip is split, the square and its hole follow unchanged.
\<close>

theorem unflagged_outer_ring_kept_witness:
  "geometry \<lparr>properties = [], geometry =
       MultiPolygon ([[scenario_A]] @ ([(0, 0), (10, 0), (10, 10), (0, 0)] # [hole_A]) # [])\<rparr>
     = MultiPolygon ([[scenario_A]] @ ([(0, 0), (10, 0), (10, 10), (0, 0)] # [hole_A]) # []) \<and>
   \<not> crosses_dateline [(0, 0), (10, 0), (10, 10), (0, 0)] \<and>
   process_feature \<lparr>properties = [], geometry =
       MultiPolygon ([[scenario_A]] @ ([(0, 0), (10, 0), (10, 10), (0, 0)] # [hole_A]) # [])\<rparr>
     = Inr \<lparr>properties = [], geometry =
         MultiPolygon ([[[(179, 0), (180, 0), (179, 10), (179, 0)]],
                        [[(-180, 0), (-179, 0), (-179, 10), (-180, 10), (-180, 0)]]] @
                       ([(0, 0), (10, 0), (10, 10), (0, 0)] # [hole_A]) # [])\<rparr>"
  using unflagged_outer_ring_kept[of
      "\<lparr>properties = [], geometry =
         MultiPolygon ([[scenario_A]] @ ([(0, 0), (10, 0), (10, 10), (0, 0)] # [hole_A]) # [])\<rparr>"
      "[[scenario_A]]" "[(0, 0), (10, 0), (10, 10), (0, 0)]" "[hole_A]" "[]"]
  by (simp add: process_feature_def process_multipolygon_def
      process_polygon_def hole_A_def scenario_A_def split_eval)

text \<open>
  The triangle \<open>hole_A\<close> has no edge jump, and as a hole of the strip of Scenario A it
  is not in the output.
\<close>

theorem unflagged_hole_dropped:
  "\<not> crosses_dateline hole_A \<and>
   process_geojson [\<lparr>properties = [], geometry = MultiPolygon [[scenario_A, hole_A]]\<rparr>] =
     Inr [\<lparr>properties = [],
           geometry = MultiPolygon
             [[[(179, 0), (180, 0), (179, 10), (179, 0)]],
              [[(-180, 0), (-179, 0), (-179, 10), (-180, 10), (-180, 0)]]]\<rparr>]"
  by (simp add: process_geojson_def process_feature_def process_multipolygon_def
      process_polygon_def hole_A_def scenario_A_def split_eval)

text \<open>
  C8. When the processing of a MultiPolygon feature returns, which it does when no polygon
  is empty or has a crossing edge with a zero divisor, the output polygons are the
  concatenation of one group per input polygon. For a polygon whose outer ring is flagged
  as crossing the group consists of one-ring polygons only, each the west or the east part
  of the outer ring: the holes are gone. For a polygon whose outer ring is not flagged the
  group is the polygon itself, with all of its holes.
\<close>

theorem holes_dropped_when_split:
  assumes "geometry f = MultiPolygon mp"
  shows "(\<forall>f'. process_feature f = Inr f' \<longrightarrow>
           (\<exists>rs. geometry f' = MultiPolygon (concat rs) \<and> length rs = length mp \<and>
              (\<forall>i < length mp. \<exists>outer_ring holes. mp ! i = outer_ring # holes \<and>
                 (crosses_dateline outer_ring \<longrightarrow>
                    (\<exists>west east. split_polygon_at_dateline outer_ring = Inr (west, east) \<and>
                       set (rs ! i) \<subseteq> {[west], [east]})) \<and>
                 (\<not> crosses_dateline outer_ring \<longrightarrow> rs ! i = [outer_ring # holes])))) \<and>
         ((\<forall>p \<in> set mp. p \<noteq> [] \<and> \<not> has_degenerate_edge (hd p)) \<longrightarrow>
            (\<exists>f'. process_feature f = Inr f'))"
proof (intro conjI allI impI)
  fix f'
  assume r: "process_feature f = Inr f'"
  have step: "\<exists>outer_ring holes. p = outer_ring # holes \<and>
              (crosses_dateline outer_ring \<longrightarrow>
                 (\<exists>west east. split_polygon_at_dateline outer_ring = Inr (west, east) \<and>
                    set r \<subseteq> {[west], [east]})) \<and>
              (\<not> crosses_dateline outer_ring \<longrightarrow> r = [outer_ring # holes])"
    if "process_polygon p = Inr r" for p r
  proof (cases p)
    case Nil
    with that show ?thesis by (simp add: process_polygon_def)
  next
    case (Cons outer_ring holes)
    show ?thesis
    proof (cases "crosses_dateline outer_ring")
      case True
      from process_polygon_flagged[OF True that[unfolded Cons]] Cons True
      show ?thesis by auto
    next
      case False
      with that Cons show ?thesis by (simp add: process_polygon_unflagged)
    qed
  qed
  show "\<exists>rs. geometry f' = MultiPolygon (concat rs) \<and> length rs = length mp \<and>
              (\<forall>i < length mp. \<exists>outer_ring holes. mp ! i = outer_ring # holes \<and>
                 (crosses_dateline outer_ring \<longrightarrow>
                    (\<exists>west east. split_polygon_at_dateline outer_ring = Inr (west, east) \<and>
                       set (rs ! i) \<subseteq> {[west], [east]})) \<and>
                 (\<not> crosses_dateline outer_ring \<longrightarrow> rs ! i = [outer_ring # holes]))"
  proof (cases "needs_split mp")
    case (Inl e)
    with assms r show ?thesis by (simp add: process_feature_def)
  next
    case (Inr b)
    show ?thesis
    proof (cases b)
      case False
      with Inr assms r have f': "f' = f" by (simp add: process_feature_def)
      from False Inr have u: "\<forall>p \<in> set mp. p \<noteq> [] \<and> \<not> crosses_dateline (hd p)"
        by (auto dest: needs_split_False)
      have "concat (map (\<lambda>p. [p]) mp) = mp" by (induction mp) auto
      moreover have "\<exists>outer_ring holes. mp ! i = outer_ring # holes \<and>
              (crosses_dateline outer_ring \<longrightarrow>
                 (\<exists>west east. split_polygon_at_dateline outer_ring = Inr (west, east) \<and>
                    set (map (\<lambda>p. [p]) mp ! i) \<subseteq> {[west], [east]})) \<and>
              (\<not> crosses_dateline outer_ring \<longrightarrow> map (\<lambda>p. [p]) mp ! i = [outer_ring # holes])"
        if "i < length mp" for i
      proof -
        from that have m: "mp ! i \<in> set mp" by simp
        with u have "mp ! i \<noteq> []" "\<not> crosses_dateline (hd (mp ! i))" by auto
        with that show ?thesis by (cases "mp ! i") auto
      qed
      ultimately show ?thesis using f' assms
        by (intro exI[of _ "map (\<lambda>p. [p]) mp"]) simp
    next
      case True
      with Inr assms r obtain res where
        res: "process_multipolygon mp = Inr res" and f': "f' = f\<lparr>geometry := MultiPolygon res\<rparr>"
        by (auto simp: process_feature_def split: sum.splits)
      from process_multipolygon_concat[OF res] obtain rs where
        rs: "length rs = length mp" "res = concat rs"
            "\<forall>i < length mp. process_polygon (mp ! i) = Inr (rs ! i)" by blast
      with step f' show ?thesis
        by (intro exI[of _ rs]) simp
    qed
  qed
next
  assume ok: "\<forall>p \<in> set mp. p \<noteq> [] \<and> \<not> has_degenerate_edge (hd p)"
  show "\<exists>f'. process_feature f = Inr f'"
  proof (cases "process_feature f")
    case (Inl e)
    from process_feature_Inl[OF Inl assms] ok show ?thesis by auto
  next
    case (Inr f')
    then show ?thesis by blast
  qed
qed

text \<open>The statement at a feature with a split polygon and a kept polygon, both with a hole.\<close>

theorem holes_dropped_when_split_witness:
  "geometry \<lparr>properties = [], geometry = MultiPolygon [[scenario_A, hole_A], [hole_A, hole_A]]\<rparr>
     = MultiPolygon [[scenario_A, hole_A], [hole_A, hole_A]] \<and>
   process_feature \<lparr>properties = [], geometry = MultiPolygon [[scenario_A, hole_A], [hole_A, hole_A]]\<rparr>
     = Inr \<lparr>properties = [],
           geometry = MultiPolygon
             [[[(179, 0), (180, 0), (179, 10), (179, 0)]],
              [[(-180, 0), (-179, 0), (-179, 10), (-180, 10), (-180, 0)]],
              [hole_A, hole_A]]\<rparr> \<and>
   (\<exists>rs. MultiPolygon
             [[[(179, 0), (180, 0), (179, 10), (179, 0)]],
              [[(-180, 0), (-179, 0), (-179, 10), (-180, 10), (-180, 0)]],
              [hole_A, hole_A]] = MultiPolygon (concat rs) \<and> length rs = 2)"
proof -
  let ?f = "\<lparr>properties = [], geometry = MultiPolygon [[scenario_A, hole_A], [hole_A, hole_A]]\<rparr>"
  let ?f' = "\<lparr>properties = [],
           geometry = MultiPolygon
             [[[(179, 0), (180, 0), (179, 10), (179, 0)]],
              [[(-180, 0), (-179, 0), (-179, 10), (-180, 10), (-180, 0)]],
              [hole_A, hole_A]]\<rparr>"
  have g: "geometry ?f = MultiPolygon [[scenario_A, hole_A], [hole_A, hole_A]]" by simp
  have p: "process_feature ?f = Inr ?f'"
    by (simp add: process_feature_def process_multipolygon_def
      process_polygon_def hole_A_def scenario_A_def split_eval)
  from holes_dropped_when_split[OF g] p obtain rs where
    "geometry ?f' = MultiPolygon (concat rs)" "length rs = 2" by auto
  with g p show ?thesis by auto
qed

section \<open>The unifying shift: results\<close>

lemma fold_shift_at_prefix:
  "k \<le> length ring \<Longrightarrow>
   fold shift_at [0..<k] ring = map shift_coord (take k ring) @ drop k ring"
proof (induction k)
  case 0
  then show ?case by simp
next
  case (Suc k)
  then have k: "k < length ring" by simp
  let ?xs = "map shift_coord (take k ring)"
  have len: "length ?xs = k" using k by simp
  have ih: "fold shift_at [0..<k] ring = ?xs @ ring ! k # drop (Suc k) ring"
    using Suc.IH k by (simp add: Cons_nth_drop_Suc)
  have nth: "(?xs @ ring ! k # drop (Suc k) ring) ! k = ring ! k"
    using len by (simp add: nth_append)
  have upd: "(?xs @ ring ! k # drop (Suc k) ring)[k := v] = ?xs @ v # drop (Suc k) ring" for v
    using len by (simp add: list_update_append)
  obtain lon lat where c: "ring ! k = (lon, lat)" by (cases "ring ! k")
  have "shift_at k (?xs @ ring ! k # drop (Suc k) ring)
          = (if lon < 0 then (?xs @ ring ! k # drop (Suc k) ring)[k := (lon + 360, lat)]
             else ?xs @ ring ! k # drop (Suc k) ring)"
    unfolding shift_at_def nth by (simp add: c)
  also have "\<dots> = ?xs @ shift_coord (ring ! k) # drop (Suc k) ring"
    unfolding upd by (simp add: c shift_coord_def)
  finally have "shift_at k (?xs @ ring ! k # drop (Suc k) ring)
          = ?xs @ shift_coord (ring ! k) # drop (Suc k) ring" .
  then show ?case
    using k by (simp add: ih take_Suc_conv_app_nth)
qed

lemma shift_ring_map: "shift_ring ring = map shift_coord ring"
  by (simp add: shift_ring_def fold_shift_at_prefix)

lemma py_min_Min: "xs \<noteq> [] \<Longrightarrow> py_min xs = Min (set xs)"
  by (cases xs) (simp_all add: py_min_def Min.set_eq_fold[symmetric])

lemma all_coords_map:
  "all_coords (map (map (map g)) mp) = map g (all_coords mp)"
  by (simp add: all_coords_def map_concat comp_def)

lemma shift_ring_eq: "shift_ring = map shift_coord"
  by (rule ext) (rule shift_ring_map)

lemma fix_feature_triggered:
  assumes "geometry f = MultiPolygon mp" "all_lons mp \<noteq> []"
    "py_min (all_lons mp) < -170" "py_max (all_lons mp) > 170"
  shows "fix_feature f = f\<lparr>geometry := MultiPolygon (map (map (map shift_coord)) mp)\<rparr>"
  using assms by (simp add: fix_feature_def Let_def shift_ring_eq)

text \<open>
  C5 (as amended). For every MultiPolygon feature whose longitudes have a minimum below
  -170 and a maximum above 170, the result is the same feature with every position of
  every ring of every polygon replaced by \<open>shift_coord\<close> of it: a negative longitude
  becomes that longitude plus 360, a non-negative longitude and every latitude stay.
  Nothing is split: the polygons, rings and points are those of the input, in number and
  order. When no input longitude is below -360, no output longitude is below 0.
\<close>

theorem shift_unify:
  assumes "geometry f = MultiPolygon mp" and "all_lons mp \<noteq> []"
    and "py_min (all_lons mp) < -170" and "py_max (all_lons mp) > 170"
  shows "fix_feature f = f\<lparr>geometry := MultiPolygon (map (map (map shift_coord)) mp)\<rparr> \<and>
         map (map length) (map (map (map shift_coord)) mp) = map (map length) mp \<and>
         (list_all (\<lambda>lon. -360 \<le> lon) (all_lons mp) \<longrightarrow>
          list_all (\<lambda>lon. 0 \<le> lon) (all_lons (map (map (map shift_coord)) mp)))"
proof -
  have "list_all (\<lambda>lon. 0 \<le> lon) (all_lons (map (map (map shift_coord)) mp))"
    if "list_all (\<lambda>lon. -360 \<le> lon) (all_lons mp)"
    using that
    by (auto simp: all_lons_def all_coords_map list_all_iff shift_coord_def)
  moreover have "map (map length) (map (map (map shift_coord)) mp) = map (map length) mp"
    by (simp add: comp_def)
  ultimately show ?thesis
    using fix_feature_triggered[OF assms] by blast
qed

text \<open>The statement at the feature of Scenario C; the largest new longitude is 181.\<close>

theorem shift_unify_witness:
  "geometry scenario_C =
     MultiPolygon [[[(-179, 0), (179, 0), (179, 10), (-179, 10), (-179, 0)],
                    [(-1795/10, 2), (1795/10, 2), (1795/10, 4), (-1795/10, 2)]],
                   [[(5, 5), (6, 5), (6, 6), (5, 5)]]] \<and>
   py_min (all_lons [[[(-179, 0), (179, 0), (179, 10), (-179, 10), (-179, 0)],
                    [(-1795/10, 2), (1795/10, 2), (1795/10, 4), (-1795/10, 2)]],
                   [[(5, 5), (6, 5), (6, 6), (5, 5)]]]) = -1795/10 \<and>
   py_max (all_lons [[[(-179, 0), (179, 0), (179, 10), (-179, 10), (-179, 0)],
                    [(-1795/10, 2), (1795/10, 2), (1795/10, 4), (-1795/10, 2)]],
                   [[(5, 5), (6, 5), (6, 6), (5, 5)]]]) = 1795/10 \<and>
   fix_feature scenario_C =
     \<lparr>properties = [(''id'', JStr ''C'')],
      geometry = MultiPolygon [[[(181, 0), (179, 0), (179, 10), (181, 10), (181, 0)],
                               [(1805/10, 2), (1795/10, 2), (1795/10, 4), (1805/10, 2)]],
                              [[(5, 5), (6, 5), (6, 6), (5, 5)]]]\<rparr> \<and>
   list_all (\<lambda>lon. 0 \<le> lon)
     (all_lons [[[(181, 0), (179, 0), (179, 10), (181, 10), (181, 0)],
                               [(1805/10, 2), (1795/10, 2), (1795/10, 4), (1805/10, 2)]],
                              [[(5, 5), (6, 5), (6, 6), (5, 5)]]])"
  using shift_unify[of scenario_C
     "[[[(-179, 0), (179, 0), (179, 10), (-179, 10), (-179, 0)],
                    [(-1795/10, 2), (1795/10, 2), (1795/10, 4), (-1795/10, 2)]],
                   [[(5, 5), (6, 5), (6, 6), (5, 5)]]]"]
  by (simp add: scenario_C_def all_lons_def all_coords_def py_min_def py_max_def shift_coord_def)

text \<open>A longitude of -400 is shifted to -40: an output point below 0.\<close>

theorem shift_unify_far_west:
  "fix_dateline_crossing [unify_far] =
     [\<lparr>properties = [(''id'', JStr ''far'')],
       geometry = MultiPolygon [[[(-40, 0), (175, 0), (175, 5), (-40, 0)]]]\<rparr>]"
  by (simp add: fix_dateline_crossing_def fix_feature_def unify_far_def all_lons_def
      all_coords_def py_min_def py_max_def shift_ring_map shift_coord_def)

lemma py_min_ge: "xs \<noteq> [] \<Longrightarrow> \<forall>x \<in> set xs. a \<le> x \<Longrightarrow> a \<le> py_min xs"
  by (simp add: py_min_Min)

lemma fix_feature_untriggered:
  "geometry f = MultiPolygon mp \<Longrightarrow>
   all_lons mp = [] \<or> \<not> py_min (all_lons mp) < -170 \<or> \<not> py_max (all_lons mp) > 170 \<Longrightarrow>
   fix_feature f = f"
  by (auto simp: fix_feature_def Let_def)

text \<open>
  C6 (as amended). For every MultiPolygon feature with no longitude below -530, applying
  the correction to its own result changes nothing: after the first application no
  longitude is below -170, so the test does not hold again.
\<close>

theorem shift_unify_twice:
  assumes "geometry f = MultiPolygon mp"
    and "list_all (\<lambda>lon. -530 \<le> lon) (all_lons mp)"
  shows "fix_feature (fix_feature f) = fix_feature f"
proof (cases "all_lons mp \<noteq> [] \<and> py_min (all_lons mp) < -170 \<and> py_max (all_lons mp) > 170")
  case False
  with assms(1) have "fix_feature f = f"
    by (intro fix_feature_untriggered) auto
  then show ?thesis by simp
next
  case True
  let ?mp' = "map (map (map shift_coord)) mp"
  from True assms(1) have f': "fix_feature f = f\<lparr>geometry := MultiPolygon ?mp'\<rparr>"
    by (simp add: fix_feature_triggered)
  have ne: "all_lons ?mp' \<noteq> []"
    using True by (simp add: all_lons_def all_coords_map)
  have "\<forall>lon \<in> set (all_lons ?mp'). -170 \<le> lon"
    using assms(2)
    by (auto simp: all_lons_def all_coords_map list_all_iff shift_coord_def)
  with ne have "-170 \<le> py_min (all_lons ?mp')"
    by (rule py_min_ge)
  then have "\<not> py_min (all_lons ?mp') < -170" by simp
  then have "fix_feature (f\<lparr>geometry := MultiPolygon ?mp'\<rparr>) = f\<lparr>geometry := MultiPolygon ?mp'\<rparr>"
    by (intro fix_feature_untriggered[of _ ?mp']) auto
  with f' show ?thesis by simp
qed

text \<open>The statement at the feature of Scenario C, which the first application changes.\<close>

theorem shift_unify_twice_witness:
  "geometry scenario_C =
     MultiPolygon [[[(-179, 0), (179, 0), (179, 10), (-179, 10), (-179, 0)],
                    [(-1795/10, 2), (1795/10, 2), (1795/10, 4), (-1795/10, 2)]],
                   [[(5, 5), (6, 5), (6, 6), (5, 5)]]] \<and>
   list_all (\<lambda>lon. -530 \<le> lon)
     (all_lons [[[(-179, 0), (179, 0), (179, 10), (-179, 10), (-179, 0)],
                    [(-1795/10, 2), (1795/10, 2), (1795/10, 4), (-1795/10, 2)]],
                   [[(5, 5), (6, 5), (6, 6), (5, 5)]]]) \<and>
   fix_feature scenario_C \<noteq> scenario_C \<and>
   fix_feature (fix_feature scenario_C) = fix_feature scenario_C"
  using shift_unify_twice[of scenario_C
     "[[[(-179, 0), (179, 0), (179, 10), (-179, 10), (-179, 0)],
                    [(-1795/10, 2), (1795/10, 2), (1795/10, 4), (-1795/10, 2)]],
                   [[(5, 5), (6, 5), (6, 6), (5, 5)]]]"]
  by (simp add: scenario_C_def all_lons_def all_coords_def py_min_def py_max_def
      fix_feature_def shift_ring_eq shift_coord_def)

text \<open>
  A longitude of -600 becomes -240 in the first application, still below -170 with the
  maximum 175 above 170, and 120 in the second.
\<close>

theorem shift_unify_twice_far_west:
  "fix_dateline_crossing [unify_twice] =
     [\<lparr>properties = [(''id'', JStr ''twice'')],
       geometry = MultiPolygon [[[(-240, 0), (175, 0), (175, 5), (-240, 0)]]]\<rparr>] \<and>
   fix_dateline_crossing
     [\<lparr>properties = [(''id'', JStr ''twice'')],
       geometry = MultiPolygon [[[(-240, 0), (175, 0), (175, 5), (-240, 0)]]]\<rparr>] =
     [\<lparr>properties = [(''id'', JStr ''twice'')],
       geometry = MultiPolygon [[[(120, 0), (175, 0), (175, 5), (120, 0)]]]\<rparr>]"
  by (simp add: fix_dateline_crossing_def fix_feature_def unify_twice_def all_lons_def
      all_coords_def py_min_def py_max_def shift_ring_eq shift_coord_def)

section \<open>The sign partition: results\<close>

lemma sign_partition_filter:
  "sign_partition ring east_points west_points =
     (east_points @ filter (\<lambda>c. fst c > 0) ring, west_points @ filter (\<lambda>c. \<not> fst c > 0) ring)"
  by (induction ring east_points west_points rule: sign_partition.induct) auto

text \<open>
  C10. The east group receives exactly the points with longitude greater than 0, the west
  group all others, both in ring order; a point with longitude 0 is appended to the west
  group.
\<close>

theorem sign_partition_zero_goes_west:
  "sign_partition outer_ring [] [] =
     (filter (\<lambda>c. fst c > 0) outer_ring, filter (\<lambda>c. \<not> fst c > 0) outer_ring) \<and>
   sign_partition ((0, lat) # rest) east_points west_points =
     sign_partition rest east_points (west_points @ [(0, lat)])"
  by (simp add: sign_partition_filter)

lemma length_close_ring: "length r \<le> length (close_ring r)"
  by (simp add: close_ring_def)

lemma east_parts_many:
  "length east_points > 3 \<Longrightarrow>
   east_parts east_points = [[[close_ring (map shift_east east_points)]]]"
  using length_close_ring[of "map shift_east east_points"]
  by (auto simp: east_parts_def Let_def)

lemma west_parts_many:
  "length west_points > 3 \<Longrightarrow>
   west_parts west_points = [[[close_ring (map shift_west west_points)]]]"
  using length_close_ring[of "map shift_west west_points"]
  by (auto simp: west_parts_def Let_def)

lemma east_parts_few: "length east_points \<le> 3 \<Longrightarrow> east_parts east_points = []"
  by (auto simp: east_parts_def)

lemma west_parts_few: "length west_points \<le> 3 \<Longrightarrow> west_parts west_points = []"
  by (auto simp: west_parts_def)

lemma polygon_parts_crossing:
  "outer_ring \<noteq> [] \<Longrightarrow> span_exceeds outer_ring \<Longrightarrow>
   polygon_parts (outer_ring # holes) =
     Inr (True, east_parts (filter (\<lambda>c. fst c > 0) outer_ring) @
                west_parts (filter (\<lambda>c. \<not> fst c > 0) outer_ring))"
  by (simp add: polygon_parts_def sign_partition_filter)

lemma emit_parts_one: "emit_parts props [a] = [\<lparr>properties = props, geometry = MultiPolygon a\<rparr>]"
  by (simp add: emit_parts_def enumerate_eq_zip part_feature_def)

lemma emit_parts_two:
  "emit_parts props [a, b] =
     [\<lparr>properties = AList.update ''_part'' (JInt 1) props, geometry = MultiPolygon a\<rparr>,
      \<lparr>properties = AList.update ''_part'' (JInt 2) props, geometry = MultiPolygon b\<rparr>]"
  by (simp add: emit_parts_def enumerate_eq_zip part_feature_def upt_rec)

text \<open>
  C4 (as amended). For a MultiPolygon feature of one polygon whose outer ring spans more
  than 350 degrees: with exactly 5 points of longitude above 0 and exactly 3 others, one
  feature is emitted, the closed and shifted east group, with the properties of the
  original and no part index (the west group needs more than 3 points to be emitted).
  With more than 3 points in both groups, two features are emitted, the east group tagged
  \<open>_part = 1\<close> and the west group tagged \<open>_part = 2\<close>, and under every key
  other than \<open>_part\<close> their properties hold what the original holds.
\<close>

theorem partition_five_three:
  assumes "geometry f = MultiPolygon [outer_ring # holes]"
    and "span_exceeds outer_ring"
  shows "(length (filter (\<lambda>c. fst c > 0) outer_ring) = 5 \<and>
          length (filter (\<lambda>c. \<not> fst c > 0) outer_ring) = 3 \<longrightarrow>
            process_feature_v2 f =
              Inr [\<lparr>properties = properties f,
                    geometry = MultiPolygon
                      [[close_ring (map shift_east (filter (\<lambda>c. fst c > 0) outer_ring))]]\<rparr>]) \<and>
         (length (filter (\<lambda>c. fst c > 0) outer_ring) > 3 \<and>
          length (filter (\<lambda>c. \<not> fst c > 0) outer_ring) > 3 \<longrightarrow>
            process_feature_v2 f =
              Inr [\<lparr>properties = AList.update ''_part'' (JInt 1) (properties f),
                    geometry = MultiPolygon
                      [[close_ring (map shift_east (filter (\<lambda>c. fst c > 0) outer_ring))]]\<rparr>,
                   \<lparr>properties = AList.update ''_part'' (JInt 2) (properties f),
                    geometry = MultiPolygon
                      [[close_ring (map shift_west (filter (\<lambda>c. \<not> fst c > 0) outer_ring))]]\<rparr>] \<and>
            (\<forall>k. k \<noteq> ''_part'' \<longrightarrow>
               map_of (AList.update ''_part'' (JInt 1) (properties f)) k = map_of (properties f) k \<and>
               map_of (AList.update ''_part'' (JInt 2) (properties f)) k = map_of (properties f) k))"
proof (intro conjI impI)
  assume n: "length (filter (\<lambda>c. fst c > 0) outer_ring) = 5 \<and>
             length (filter (\<lambda>c. \<not> fst c > 0) outer_ring) = 3"
  then have ne: "outer_ring \<noteq> []" by auto
  from n have "east_parts (filter (\<lambda>c. fst c > 0) outer_ring) =
                 [[[close_ring (map shift_east (filter (\<lambda>c. fst c > 0) outer_ring))]]]"
    and "west_parts (filter (\<lambda>c. \<not> fst c > 0) outer_ring) = []"
    by (simp_all add: east_parts_many west_parts_few)
  with assms ne show "process_feature_v2 f =
              Inr [\<lparr>properties = properties f,
                    geometry = MultiPolygon
                      [[close_ring (map shift_east (filter (\<lambda>c. fst c > 0) outer_ring))]]\<rparr>]"
    by (simp add: process_feature_v2_def polygon_parts_crossing emit_parts_one)
next
  assume n: "length (filter (\<lambda>c. fst c > 0) outer_ring) > 3 \<and>
             length (filter (\<lambda>c. \<not> fst c > 0) outer_ring) > 3"
  then have ne: "outer_ring \<noteq> []" by auto
  from n have "east_parts (filter (\<lambda>c. fst c > 0) outer_ring) =
                 [[[close_ring (map shift_east (filter (\<lambda>c. fst c > 0) outer_ring))]]]"
    and "west_parts (filter (\<lambda>c. \<not> fst c > 0) outer_ring) =
                 [[[close_ring (map shift_west (filter (\<lambda>c. \<not> fst c > 0) outer_ring))]]]"
    by (simp_all add: east_parts_many west_parts_many)
  with assms ne show "process_feature_v2 f =
              Inr [\<lparr>properties = AList.update ''_part'' (JInt 1) (properties f),
                    geometry = MultiPolygon
                      [[close_ring (map shift_east (filter (\<lambda>c. fst c > 0) outer_ring))]]\<rparr>,
                   \<lparr>properties = AList.update ''_part'' (JInt 2) (properties f),
                    geometry = MultiPolygon
                      [[close_ring (map shift_west (filter (\<lambda>c. \<not> fst c > 0) outer_ring))]]\<rparr>]"
    by (simp add: process_feature_v2_def polygon_parts_crossing emit_parts_two)
next
  show "\<forall>k. k \<noteq> ''_part'' \<longrightarrow>
               map_of (AList.update ''_part'' (JInt 1) (properties f)) k = map_of (properties f) k \<and>
               map_of (AList.update ''_part'' (JInt 2) (properties f)) k = map_of (properties f) k"
    by (simp add: update_conv')
qed

lemmas partition_eval =
  process_geojson_v2_def process_feature_v2_def polygon_parts_def span_exceeds_def
  py_min_def py_max_def east_parts_def west_parts_def close_ring_def shift_east_def
  shift_west_def emit_parts_def part_feature_def enumerate_eq_zip upt_rec Let_def

text \<open>
  Scenario D at a ring with 5 points east and 3 points west of 0: one feature comes out,
  without a part index.
\<close>

theorem scenario_D_one_feature:
  "span_exceeds scenario_D \<and>
   length (filter (\<lambda>c. fst c > 0) scenario_D) = 5 \<and>
   length (filter (\<lambda>c. fst c < 0) scenario_D) = 3 \<and>
   process_geojson_v2
     [\<lparr>properties = [(''id'', JStr ''D'')], geometry = MultiPolygon [[scenario_D]]\<rparr>] =
     Inr [\<lparr>properties = [(''id'', JStr ''D'')],
           geometry = MultiPolygon
             [[[(-185, 0), (-182, 0), (-181, 5), (-182, 10), (-185, 0)]]]\<rparr>]"
  by (simp add: scenario_D_def partition_eval)

text \<open>
  The statement at the ring of Scenario D, and at a ring with 6 and 5 points whose feature
  already has a \<open>_part\<close> property.
\<close>

theorem partition_five_three_witness:
  "geometry \<lparr>properties = [(''id'', JStr ''D'')], geometry = MultiPolygon [[scenario_D]]\<rparr>
     = MultiPolygon [scenario_D # []] \<and>
   span_exceeds scenario_D \<and>
   length (filter (\<lambda>c. fst c > 0) scenario_D) = 5 \<and>
   length (filter (\<lambda>c. \<not> fst c > 0) scenario_D) = 3 \<and>
   process_feature_v2
     \<lparr>properties = [(''id'', JStr ''D'')], geometry = MultiPolygon [[scenario_D]]\<rparr> =
     Inr [\<lparr>properties = [(''id'', JStr ''D'')],
           geometry = MultiPolygon
             [[close_ring (map shift_east (filter (\<lambda>c. fst c > 0) scenario_D))]]\<rparr>] \<and>
   geometry \<lparr>properties = [(''id'', JStr ''W''), (''_part'', JStr ''north'')],
             geometry = MultiPolygon [[wide_ring, square]]\<rparr>
     = MultiPolygon [wide_ring # [square]] \<and>
   span_exceeds wide_ring \<and>
   length (filter (\<lambda>c. fst c > 0) wide_ring) = 6 \<and>
   length (filter (\<lambda>c. \<not> fst c > 0) wide_ring) = 5 \<and>
   process_feature_v2
     \<lparr>properties = [(''id'', JStr ''W''), (''_part'', JStr ''north'')],
      geometry = MultiPolygon [[wide_ring, square]]\<rparr> =
     Inr [\<lparr>properties = [(''id'', JStr ''W''), (''_part'', JInt 1)],
           geometry = MultiPolygon
             [[[(-184, 0), (-182, 0), (-181, 5), (-182, 10), (-184, 10), (-184, 0)]]]\<rparr>,
          \<lparr>properties = [(''id'', JStr ''W''), (''_part'', JInt 2)],
           geometry = MultiPolygon
             [[[(184, 10), (182, 10), (181, 5), (182, 0), (184, 0), (184, 10)]]]\<rparr>]"
proof -
  let ?d = "\<lparr>properties = [(''id'', JStr ''D'')], geometry = MultiPolygon [[scenario_D]]\<rparr>"
  let ?w = "\<lparr>properties = [(''id'', JStr ''W''), (''_part'', JStr ''north'')],
             geometry = MultiPolygon [[wide_ring, square]]\<rparr>"
  have d: "span_exceeds scenario_D"
    by (simp add: scenario_D_def span_exceeds_def py_min_def py_max_def)
  have w: "span_exceeds wide_ring"
    by (simp add: wide_ring_def span_exceeds_def py_min_def py_max_def)
  have nd: "length (filter (\<lambda>c. fst c > 0) scenario_D) = 5 \<and>
            length (filter (\<lambda>c. \<not> fst c > 0) scenario_D) = 3"
    by (simp add: scenario_D_def)
  have nw: "length (filter (\<lambda>c. fst c > 0) wide_ring) = 6 \<and>
            length (filter (\<lambda>c. \<not> fst c > 0) wide_ring) = 5"
    by (simp add: wide_ring_def)
  have ew: "close_ring (map shift_east (filter (\<lambda>c. fst c > 0) wide_ring)) =
              [(-184, 0), (-182, 0), (-181, 5), (-182, 10), (-184, 10), (-184, 0)]"
    "close_ring (map shift_west (filter (\<lambda>c. \<not> fst c > 0) wide_ring)) =
              [(184, 10), (182, 10), (181, 5), (182, 0), (184, 0), (184, 10)]"
    by (simp_all add: wide_ring_def close_ring_def shift_east_def shift_west_def)
  from partition_five_three[of ?d scenario_D "[]", OF _ d]
       partition_five_three[of ?w wide_ring "[square]", OF _ w]
       d w nd nw ew
  show ?thesis by simp
qed

lemma collect_parts_acc:
  "collect_parts mp hc acc =
     (case collect_parts mp False [] of
        Inl e \<Rightarrow> Inl e
      | Inr (c, parts) \<Rightarrow> Inr (hc \<or> c, acc @ parts))"
proof (induction mp arbitrary: hc acc)
  case Nil
  then show ?case by simp
next
  case (Cons p ps)
  show ?case
  proof (cases "polygon_parts p")
    case (Inl e)
    then show ?thesis by simp
  next
    case (Inr r)
    obtain c new where r: "r = (c, new)" by (cases r)
    show ?thesis
      using Inr r Cons.IH[of "hc \<or> c" "acc @ new"] Cons.IH[of c new]
      by (auto split: sum.splits)
  qed
qed

lemma collect_parts_Cons:
  "collect_parts (p # ps) False [] =
     (case polygon_parts p of
        Inl e \<Rightarrow> Inl e
      | Inr (c, new) \<Rightarrow>
          (case collect_parts ps False [] of
             Inl e \<Rightarrow> Inl e
           | Inr (c', parts) \<Rightarrow> Inr (c \<or> c', new @ parts)))"
proof (cases "polygon_parts p")
  case (Inl e)
  then show ?thesis by simp
next
  case (Inr r)
  obtain c new where r: "r = (c, new)" by (cases r)
  show ?thesis
    using Inr r collect_parts_acc[of ps c new] by simp
qed

lemma polygon_parts_Inr:
  assumes "polygon_parts p = Inr (c, new)"
  shows "p \<noteq> [] \<and> hd p \<noteq> [] \<and> c = span_exceeds (hd p) \<and>
         new = (if span_exceeds (hd p)
                then east_parts (filter (\<lambda>c. fst c > 0) (hd p)) @
                     west_parts (filter (\<lambda>c. \<not> fst c > 0) (hd p))
                else [[p]])"
  using assms
  by (cases p) (auto simp: polygon_parts_def sign_partition_filter split: if_splits)

lemma polygon_parts_returns:
  "p \<noteq> [] \<Longrightarrow> hd p \<noteq> [] \<Longrightarrow> \<exists>r. polygon_parts p = Inr r"
  by (cases p) (auto simp: polygon_parts_def split: prod.splits)

lemma collect_parts_returns:
  "\<forall>p \<in> set mp. p \<noteq> [] \<and> hd p \<noteq> [] \<Longrightarrow> \<exists>r. collect_parts mp False [] = Inr r"
proof (induction mp)
  case Nil
  then show ?case by auto
next
  case (Cons p ps)
  then obtain r r' where "polygon_parts p = Inr r" "collect_parts ps False [] = Inr r'"
    using polygon_parts_returns[of p] by auto
  then show ?case
    unfolding collect_parts_Cons by (cases r; cases r') simp
qed

lemma collect_parts_concat:
  "collect_parts mp False [] = Inr (c, parts) \<Longrightarrow>
   c = (\<exists>p \<in> set mp. span_exceeds (hd p)) \<and>
   parts = concat (map (\<lambda>p. if span_exceeds (hd p)
                then east_parts (filter (\<lambda>c. fst c > 0) (hd p)) @
                     west_parts (filter (\<lambda>c. \<not> fst c > 0) (hd p))
                else [[p]]) mp)"
proof (induction mp arbitrary: c parts)
  case Nil
  then show ?case by simp
next
  case (Cons p ps)
  from Cons.prems[unfolded collect_parts_Cons] obtain c1 new c2 rest where
    p: "polygon_parts p = Inr (c1, new)" and ps: "collect_parts ps False [] = Inr (c2, rest)"
    and c: "c = (c1 \<or> c2)" and parts: "parts = new @ rest"
    by (auto split: sum.splits prod.splits)
  from polygon_parts_Inr[OF p] Cons.IH[OF ps] c parts show ?case
    by simp
qed

lemma east_parts_single: "part \<in> set (east_parts ps) \<Longrightarrow> \<exists>polygon. part = [polygon]"
  by (auto simp: east_parts_def Let_def split: if_splits)

lemma west_parts_single: "part \<in> set (west_parts ps) \<Longrightarrow> \<exists>polygon. part = [polygon]"
  by (auto simp: west_parts_def Let_def split: if_splits)

lemma length_emit_parts: "length (emit_parts props parts) = length parts"
  by (simp add: emit_parts_def)

lemma nth_emit_parts:
  "i < length parts \<Longrightarrow>
   emit_parts props parts ! i = part_feature props (length parts) i (parts ! i)"
  by (simp add: emit_parts_def nth_enumerate_eq)

lemma geometry_emit_parts: "map geometry (emit_parts props parts) = map MultiPolygon parts"
  by (rule nth_equalityI) (simp_all add: length_emit_parts nth_emit_parts part_feature_def)

text \<open>
  C9 (as amended). When at least one polygon of a MultiPolygon feature passes the span
  test and the processing returns (it does when every polygon has a non-empty outer ring),
  the output features are, in order: for a polygon that does not cross, that polygon
  unchanged as a feature of its own; for a polygon that crosses, its east group and its
  west group, each only if it has more than 3 points, so two, one or no features. Every
  output feature is a MultiPolygon of one polygon. When more than one feature comes out,
  feature number \<open>i\<close> (from 0) has the original properties with \<open>_part = i + 1\<close>;
  otherwise the properties are the original ones.
\<close>

theorem partition_explodes_multipolygon:
  assumes "geometry f = MultiPolygon mp" and "\<exists>p \<in> set mp. span_exceeds (hd p)"
  shows "(\<forall>out. process_feature_v2 f = Inr out \<longrightarrow>
            map geometry out =
              map MultiPolygon
                (concat (map (\<lambda>p. if span_exceeds (hd p)
                                  then east_parts (filter (\<lambda>c. fst c > 0) (hd p)) @
                                       west_parts (filter (\<lambda>c. \<not> fst c > 0) (hd p))
                                  else [[p]]) mp)) \<and>
            (\<forall>g \<in> set out. \<exists>polygon. geometry g = MultiPolygon [polygon]) \<and>
            (\<forall>i < length out.
               properties (out ! i) =
                 (if length out > 1
                  then AList.update ''_part'' (JInt (int i + 1)) (properties f)
                  else properties f))) \<and>
         ((\<forall>p \<in> set mp. p \<noteq> [] \<and> hd p \<noteq> []) \<longrightarrow> (\<exists>out. process_feature_v2 f = Inr out))"
proof -
  let ?parts = "concat (map (\<lambda>p. if span_exceeds (hd p)
                                  then east_parts (filter (\<lambda>c. fst c > 0) (hd p)) @
                                       west_parts (filter (\<lambda>c. \<not> fst c > 0) (hd p))
                                  else [[p]]) mp)"
  have emitted: "out = emit_parts (properties f) ?parts"
    if r: "process_feature_v2 f = Inr out" for out
  proof -
    from r assms(1) obtain c parts where cp: "collect_parts mp False [] = Inr (c, parts)"
      by (cases "collect_parts mp False []") (auto simp: process_feature_v2_def)
    from collect_parts_concat[OF cp] assms(2) have "c" and "parts = ?parts"
      by auto
    with r assms(1) cp show ?thesis
      by (simp add: process_feature_v2_def)
  qed
  have single: "\<exists>polygon. part = [polygon]" if "part \<in> set ?parts" for part
    using that by (auto split: if_splits dest: east_parts_single west_parts_single)
  have geo: "\<forall>g \<in> set (emit_parts (properties f) ?parts). \<exists>polygon. geometry g = MultiPolygon [polygon]"
  proof
    fix g assume "g \<in> set (emit_parts (properties f) ?parts)"
    then obtain i where i: "i < length ?parts" and g: "g = emit_parts (properties f) ?parts ! i"
      by (auto simp: in_set_conv_nth length_emit_parts)
    from i have "geometry g = MultiPolygon (?parts ! i)"
      unfolding g by (simp add: nth_emit_parts part_feature_def)
    moreover from i have "?parts ! i \<in> set ?parts" by (rule nth_mem)
    ultimately show "\<exists>polygon. geometry g = MultiPolygon [polygon]"
      using single by auto
  qed
  have props: "\<forall>i < length (emit_parts (properties f) ?parts).
               properties (emit_parts (properties f) ?parts ! i) =
                 (if length (emit_parts (properties f) ?parts) > 1
                  then AList.update ''_part'' (JInt (int i + 1)) (properties f)
                  else properties f)"
    by (simp add: length_emit_parts nth_emit_parts part_feature_def)
  have returns: "\<exists>out. process_feature_v2 f = Inr out"
    if "\<forall>p \<in> set mp. p \<noteq> [] \<and> hd p \<noteq> []"
    using collect_parts_returns[OF that] assms(1)
    by (auto simp: process_feature_v2_def)
  from emitted geo props returns geometry_emit_parts[of "properties f" ?parts]
  show ?thesis by blast
qed

text \<open>
  The statement at a feature of a crossing polygon with a hole and a polygon that does not
  cross: three features, the last the second polygon with its hole.
\<close>

theorem partition_explodes_multipolygon_witness:
  "geometry \<lparr>properties = [(''id'', JStr ''W'')],
             geometry = MultiPolygon [[wide_ring, square], [square, tiny_triangle]]\<rparr>
     = MultiPolygon [[wide_ring, square], [square, tiny_triangle]] \<and>
   span_exceeds (hd [wide_ring, square]) \<and>
   \<not> span_exceeds (hd [square, tiny_triangle]) \<and>
   process_feature_v2
     \<lparr>properties = [(''id'', JStr ''W'')],
      geometry = MultiPolygon [[wide_ring, square], [square, tiny_triangle]]\<rparr> =
     Inr [\<lparr>properties = [(''id'', JStr ''W''), (''_part'', JInt 1)],
           geometry = MultiPolygon
             [[[(-184, 0), (-182, 0), (-181, 5), (-182, 10), (-184, 10), (-184, 0)]]]\<rparr>,
          \<lparr>properties = [(''id'', JStr ''W''), (''_part'', JInt 2)],
           geometry = MultiPolygon
             [[[(184, 10), (182, 10), (181, 5), (182, 0), (184, 0), (184, 10)]]]\<rparr>,
          \<lparr>properties = [(''id'', JStr ''W''), (''_part'', JInt 3)],
           geometry = MultiPolygon [[square, tiny_triangle]]\<rparr>]"
  using partition_explodes_multipolygon[of
      "\<lparr>properties = [(''id'', JStr ''W'')],
        geometry = MultiPolygon [[wide_ring, square], [square, tiny_triangle]]\<rparr>"
      "[[wide_ring, square], [square, tiny_triangle]]"]
  by (simp add: wide_ring_def square_def tiny_triangle_def partition_eval)

text \<open>
  The small triangle over the seam passes the span test and has two points in each group:
  it is in no output feature, and the square comes out alone, without a part index.
\<close>

theorem crossing_triangle_not_emitted:
  "span_exceeds tiny_triangle \<and>
   process_geojson_v2
     [\<lparr>properties = [(''id'', JStr ''T'')],
       geometry = MultiPolygon [[tiny_triangle], [square]]\<rparr>] =
     Inr [\<lparr>properties = [(''id'', JStr ''T'')], geometry = MultiPolygon [[square]]\<rparr>]"
  by (simp add: tiny_triangle_def square_def partition_eval)


end
